theory Spec2Isabelle
  imports Main
begin

section \<open>JavaScript strings\<close>

text \<open>
  A JavaScript string is a sequence of UTF-16 code units. All the glyphs the program
  tests for lie in the Basic Multilingual Plane, so a code unit is modelled as the
  integer of its code point and a string as a list of them. \<open>ascii\<close> embeds an ASCII
  literal.
\<close>

type_synonym jsstring = "int list"

definition ascii :: "string \<Rightarrow> jsstring" where
  "ascii s = map of_char s"

text \<open>\<open>String.prototype.startsWith\<close> and \<open>String.prototype.includes\<close> (named \<open>includes_js\<close> here).\<close>

fun startsWith :: "jsstring \<Rightarrow> jsstring \<Rightarrow> bool" where
  "startsWith s [] = True"
| "startsWith [] (p # ps) = False"
| "startsWith (c # cs) (p # ps) = (if c = p then startsWith cs ps else False)"

fun includes_js :: "jsstring \<Rightarrow> jsstring \<Rightarrow> bool" where
  "includes_js [] sub = (sub = [])"
| "includes_js (c # cs) sub = (if startsWith (c # cs) sub then True else includes_js cs sub)"

section \<open>The tmux injector (class TmuxInjector)\<close>

subsection \<open>The pane as an environment\<close>

text \<open>
  The injector talks to the pane through \<open>exec\<close>: \<open>tmux send-keys\<close> and
  \<open>tmux capture-pane\<close>. What the pane answers is not under the program's control, so
  it is a parameter: \<open>sendError e k\<close> is the outcome of the \<open>k\<close>-th \<open>send-keys\<close> call
  (\<open>None\<close> when it succeeds, the error message otherwise) and \<open>paneCapture e k\<close> the
  outcome of the \<open>k\<close>-th \<open>capture-pane\<close> call. The record \<open>io\<close> counts the calls made
  so far and keeps the trace of what the program did, in order.
\<close>

datatype action = SendKeys jsstring | CapturePane | Sleep nat

datatype capture = CaptureOk jsstring | CaptureFailed jsstring

record pane_env =
  sendError :: "nat \<Rightarrow> jsstring option"
  paneCapture :: "nat \<Rightarrow> capture"

record io =
  nsend :: nat
  ncap :: nat
  acts :: "action list"

definition execSendKeys :: "pane_env \<Rightarrow> jsstring \<Rightarrow> io \<Rightarrow> jsstring option \<times> io" where
  "execSendKeys e keys w =
     (sendError e (nsend w), w\<lparr>nsend := Suc (nsend w), acts := acts w @ [SendKeys keys]\<rparr>)"

definition getCaptureOutput :: "pane_env \<Rightarrow> io \<Rightarrow> capture \<times> io" where
  "getCaptureOutput e w =
     (paneCapture e (ncap w), w\<lparr>ncap := Suc (ncap w), acts := acts w @ [CapturePane]\<rparr>)"

definition sleep :: "nat \<Rightarrow> io \<Rightarrow> io" where
  "sleep ms w = w\<lparr>acts := acts w @ [Sleep ms]\<rparr>"

text \<open>
  The argument of \<open>send-keys\<close> as the command line writes it: a key name (\<open>C-u\<close>,
  \<open>C-m\<close>) or a word in single quotes (\<open>'2'\<close>, \<open>'Enter'\<close>, the command text).
\<close>

definition quoted :: "jsstring \<Rightarrow> jsstring" where
  "quoted s = [39] @ s @ [39]"

definition keyClear :: jsstring where "keyClear = ascii ''C-u''"
definition keyCm :: jsstring where "keyCm = ascii ''C-m''"
definition keyEnter :: jsstring where "keyEnter = quoted (ascii ''Enter'')"
definition keyOne :: jsstring where "keyOne = quoted (ascii ''1'')"
definition keyTwo :: jsstring where "keyTwo = quoted (ascii ''2'')"
definition keyY :: jsstring where "keyY = quoted (ascii ''y'')"

text \<open>\<open>command.replace(/'/g, "'\"'\"'")\<close>: every single quote becomes \<open>'"'"'\<close>.\<close>

definition escapeQuotes :: "jsstring \<Rightarrow> jsstring" where
  "escapeQuotes command = concat (map (\<lambda>c. if c = 39 then [39, 34, 39, 34, 39] else [c]) command)"

subsection \<open>The texts handleConfirmations looks for\<close>

text \<open>
  The literals are taken from the source file as it is stored; some of them hold the
  bytes of a glyph read in another encoding, and are kept as the file has them.
\<close>

definition txtProceed :: jsstring where "txtProceed = ascii ''Do you want to proceed?''"
definition txtOneYes :: jsstring where "txtOneYes = ascii ''1. Yes''"
definition txtTwoYes :: jsstring where
  "txtTwoYes = ascii ''2. Yes, and don'' @ [39] @ ascii ''t ask again''"
definition txtSingleA :: jsstring where "txtSingleA = [0xE2, 0xAF] @ ascii '' 1. Yes''"
definition txtSingleB :: jsstring where "txtSingleB = [0xE2, 0x2013, 0xB7] @ ascii '' 1. Yes''"
definition txtYN1 :: jsstring where "txtYN1 = ascii ''(y/n)''"
definition txtYN2 :: jsstring where "txtYN2 = ascii ''[Y/n]''"
definition txtYN3 :: jsstring where "txtYN3 = ascii ''[y/N]''"
definition txtEnter1 :: jsstring where "txtEnter1 = ascii ''Press Enter to continue''"
definition txtEnter2 :: jsstring where "txtEnter2 = ascii ''Enter to confirm''"
definition txtEnter3 :: jsstring where "txtEnter3 = ascii ''Press Enter''"
definition txtBusy1 :: jsstring where "txtBusy1 = ascii ''Clauding'' @ [0xE2, 0x20AC, 0xA6]"
definition txtBusy2 :: jsstring where "txtBusy2 = ascii ''Waiting'' @ [0xE2, 0x20AC, 0xA6]"
definition txtBusy3 :: jsstring where "txtBusy3 = ascii ''Processing'' @ [0xE2, 0x20AC, 0xA6]"
definition txtBusy4 :: jsstring where "txtBusy4 = ascii ''Working'' @ [0xE2, 0x20AC, 0xA6]"
definition txtBoxPrompt :: jsstring where "txtBoxPrompt = [0xE2, 0x201D, 0x201A] @ ascii '' >''"
definition txtPrompt :: jsstring where "txtPrompt = ascii ''> ''"
definition txtError1 :: jsstring where "txtError1 = ascii ''Error:''"
definition txtError2 :: jsstring where "txtError2 = ascii ''error:''"
definition txtError3 :: jsstring where "txtError3 = ascii ''failed''"

text \<open>The conditions of the branches of the loop body, in the order the source tests them.\<close>

definition isMultiOption :: "jsstring \<Rightarrow> bool" where
  "isMultiOption output =
     (includes_js output txtProceed \<and> (includes_js output txtOneYes \<or> includes_js output txtTwoYes))"

definition isSingleOption :: "jsstring \<Rightarrow> bool" where
  "isSingleOption output = (includes_js output txtSingleA \<or> includes_js output txtSingleB)"

definition isYesNo :: "jsstring \<Rightarrow> bool" where
  "isYesNo output = (includes_js output txtYN1 \<or> includes_js output txtYN2 \<or> includes_js output txtYN3)"

definition isPressEnter :: "jsstring \<Rightarrow> bool" where
  "isPressEnter output =
     (includes_js output txtEnter1 \<or> includes_js output txtEnter2 \<or> includes_js output txtEnter3)"

definition isExecuting :: "jsstring \<Rightarrow> bool" where
  "isExecuting output =
     (includes_js output txtBusy1 \<or> includes_js output txtBusy2 \<or> includes_js output txtBusy3
      \<or> includes_js output txtBusy4)"

definition isIdlePrompt :: "jsstring \<Rightarrow> bool" where
  "isIdlePrompt output =
     ((includes_js output txtBoxPrompt \<or> includes_js output txtPrompt)
      \<and> \<not> includes_js output txtProceed \<and> \<not> includes_js output txtOneYes
      \<and> \<not> includes_js output txtYN1)"

definition isErrorOutput :: "jsstring \<Rightarrow> bool" where
  "isErrorOutput output =
     (includes_js output txtError1 \<or> includes_js output txtError2 \<or> includes_js output txtError3)"

subsection \<open>handleConfirmations\<close>

text \<open>
  The three option branches wrap their keystrokes in a promise that is resolved in the
  callback of the \<open>Enter\<close> keystroke only. When the first keystroke fails the source
  logs a warning and never calls \<open>resolve\<close>: the \<open>await\<close> does not return. The flag
  returned here says whether the promise was resolved.
\<close>

definition sendOptionThenEnter :: "pane_env \<Rightarrow> jsstring \<Rightarrow> io \<Rightarrow> bool \<times> io" where
  "sendOptionThenEnter e keys w =
     (case execSendKeys e keys w of
        (Some err, w1) \<Rightarrow> (False, w1)
      | (None, w1) \<Rightarrow>
          (case execSendKeys e keyEnter (sleep 300 w1) of (enterError, w2) \<Rightarrow> (True, w2)))"

definition maxAttempts :: nat where
  "maxAttempts = 8"

text \<open>
  One pass through the body of the \<open>while\<close> loop, after \<open>attempts++\<close>: the loop goes
  on (\<open>continue\<close> or the end of the body), is left (\<open>break\<close>), or is stuck on a
  promise that is never resolved.
\<close>

datatype step = Continue io | Break io | Stuck io

definition confirmStep :: "pane_env \<Rightarrow> nat \<Rightarrow> io \<Rightarrow> step" where
  "confirmStep e attempts w =
     (case getCaptureOutput e (sleep 1500 w) of
        (CaptureFailed err, w1) \<Rightarrow> Break w1
      | (CaptureOk output, w1) \<Rightarrow>
          if isMultiOption output then
            (case sendOptionThenEnter e keyTwo w1 of
               (False, w2) \<Rightarrow> Stuck w2
             | (True, w2) \<Rightarrow> Continue (sleep 2000 w2))
          else if isSingleOption output then
            (case sendOptionThenEnter e keyOne w1 of
               (False, w2) \<Rightarrow> Stuck w2
             | (True, w2) \<Rightarrow> Continue w2)
          else if isYesNo output then
            (case sendOptionThenEnter e keyY w1 of
               (False, w2) \<Rightarrow> Stuck w2
             | (True, w2) \<Rightarrow> Continue w2)
          else if isPressEnter output then
            (case execSendKeys e keyEnter w1 of (enterError, w2) \<Rightarrow> Continue w2)
          else if isExecuting output then Continue w1
          else if isIdlePrompt output then Break w1
          else if isErrorOutput output then Break w1
          else if attempts < maxAttempts then Continue (sleep 2000 w1)
          else Continue w1)"

text \<open>
  What a call comes to: it returns a value, or it never returns because it awaits a
  promise nobody resolves.
\<close>

datatype 'a completion = Returns 'a | Hangs

text \<open>
  The \<open>while (attempts < maxAttempts)\<close> loop. The counter is returned with the state;
  the source writes it to the log.
\<close>

function confirmLoop :: "pane_env \<Rightarrow> nat \<Rightarrow> io \<Rightarrow> nat completion \<times> io" where
  "confirmLoop e attempts w =
     (if attempts < maxAttempts then
        (case confirmStep e (Suc attempts) w of
           Continue w1 \<Rightarrow> confirmLoop e (Suc attempts) w1
         | Break w1 \<Rightarrow> (Returns (Suc attempts), w1)
         | Stuck w1 \<Rightarrow> (Hangs, w1))
      else (Returns attempts, w))"
  by pat_completeness auto
termination
  by (relation "measure (\<lambda>(e, attempts, w). maxAttempts - attempts)") auto

declare confirmLoop.simps [simp del]

definition handleConfirmations :: "pane_env \<Rightarrow> io \<Rightarrow> nat completion \<times> io" where
  "handleConfirmations e w =
     (case confirmLoop e 0 w of
        (Hangs, w1) \<Rightarrow> (Hangs, w1)
      | (Returns attempts, w1) \<Rightarrow>
          (case getCaptureOutput e w1 of (finalCapture, w2) \<Rightarrow> (Returns attempts, w2)))"

subsection \<open>injectCommand\<close>

text \<open>
  The result object: \<open>{success: true}\<close> or \<open>{success: false, error: message}\<close>.
  \<open>logInjection\<close> appends a line to a log file inside a \<open>try\<close> and changes nothing
  the pane or the caller sees; it is left out.
\<close>

datatype inject_result = InjectOk | InjectFailed jsstring

definition injectCommand :: "pane_env \<Rightarrow> jsstring \<Rightarrow> io \<Rightarrow> inject_result completion \<times> io" where
  "injectCommand e command w =
     (case execSendKeys e keyClear w of
        (Some clearError, w1) \<Rightarrow> (Returns (InjectFailed clearError), w1)
      | (None, w1) \<Rightarrow>
     (case execSendKeys e (quoted (escapeQuotes command)) (sleep 200 w1) of
        (Some sendErr, w2) \<Rightarrow> (Returns (InjectFailed sendErr), w2)
      | (None, w2) \<Rightarrow>
     (case execSendKeys e keyCm (sleep 200 w2) of
        (Some enterError, w3) \<Rightarrow> (Returns (InjectFailed enterError), w3)
      | (None, w3) \<Rightarrow>
     (case getCaptureOutput e (sleep 1000 w3) of (cap, w4) \<Rightarrow>
     (case handleConfirmations e w4 of
        (Hangs, w5) \<Rightarrow> (Hangs, w5)
      | (Returns attempts, w5) \<Rightarrow> (Returns InjectOk, w5))))))"

section \<open>Strings, arrays and regular expressions of JavaScript\<close>

subsection \<open>White space, trim, split, join, slice\<close>

text \<open>
  The line terminators of ECMAScript, and the characters that \<open>\s\<close> matches and
  \<open>String.prototype.trim\<close> strips (white space and line terminators).
\<close>

definition isLineTerminator :: "int \<Rightarrow> bool" where
  "isLineTerminator c = (c = 0x0A \<or> c = 0x0D \<or> c = 0x2028 \<or> c = 0x2029)"

definition isSpace :: "int \<Rightarrow> bool" where
  "isSpace c =
     (c = 0x09 \<or> c = 0x0A \<or> c = 0x0B \<or> c = 0x0C \<or> c = 0x0D \<or> c = 0x20 \<or> c = 0xA0
      \<or> c = 0x1680 \<or> (0x2000 \<le> c \<and> c \<le> 0x200A) \<or> c = 0x2028 \<or> c = 0x2029
      \<or> c = 0x202F \<or> c = 0x205F \<or> c = 0x3000 \<or> c = 0xFEFF)"

definition trim :: "jsstring \<Rightarrow> jsstring" where
  "trim s = rev (dropWhile isSpace (rev (dropWhile isSpace s)))"

text \<open>\<open>s.split('\n')\<close>: never empty, the empty string gives one empty line.\<close>

fun splitLines :: "jsstring \<Rightarrow> jsstring list" where
  "splitLines [] = [[]]"
| "splitLines (c # cs) =
     (if c = 10 then [] # splitLines cs
      else (case splitLines cs of [] \<Rightarrow> [[c]] | l # ls \<Rightarrow> (c # l) # ls))"

text \<open>\<open>lines.join('\n')\<close>.\<close>

fun joinLines :: "jsstring list \<Rightarrow> jsstring" where
  "joinLines [] = []"
| "joinLines [l] = l"
| "joinLines (l # m # ls) = l @ [10] @ joinLines (m # ls)"

text \<open>
  \<open>xs.slice(-n)\<close> for \<open>n > 0\<close>, on arrays and on strings: the last \<open>n\<close> elements, all
  of them when there are fewer. Every call in the source has \<open>n > 0\<close>.
\<close>

definition sliceLast :: "nat \<Rightarrow> 'a list \<Rightarrow> 'a list" where
  "sliceLast n xs = drop (length xs - n) xs"

text \<open>A number inside a template string: its decimal digits.\<close>

fun showNat :: "nat \<Rightarrow> jsstring" where
  "showNat n = (if n < 10 then [48 + int n] else showNat (n div 10) @ [48 + int (n mod 10)])"

declare showNat.simps [simp del]

subsection \<open>Regular expressions\<close>

text \<open>
  The regular expressions of the source use character classes, concatenation,
  alternation, greedy repetition and the assertions \<open>^\<close> and \<open>$\<close>; no back references
  and no look-around. A position in the subject is the character before it (for \<open>^\<close>
  under the \<open>m\<close> flag) and the rest of the subject. \<open>ends r p\<close> lists the positions
  where a match of \<open>r\<close> that starts at \<open>p\<close> can end, in the order in which the
  backtracking matcher of ECMAScript tries them: the first alternative before the
  second, one more repetition before leaving the loop. A repetition that consumes
  nothing is rejected, as ECMAScript does, so a loop runs at most once per remaining
  character: the fuel \<open>length (snd p)\<close> never runs out.
\<close>

datatype re =
    Atom "int \<Rightarrow> bool"
  | Eps
  | Seq re re
  | Alt re re
  | Star re
  | Bol
  | BolM
  | Eol

type_synonym pos = "int option \<times> jsstring"

fun starIter :: "(pos \<Rightarrow> pos list) \<Rightarrow> nat \<Rightarrow> pos \<Rightarrow> pos list" where
  "starIter f 0 p = [p]"
| "starIter f (Suc n) p =
     concat (map (starIter f n) (filter (\<lambda>q. length (snd q) < length (snd p)) (f p))) @ [p]"

primrec ends :: "re \<Rightarrow> pos \<Rightarrow> pos list" where
  "ends (Atom cls) p =
     (case snd p of [] \<Rightarrow> [] | c # cs \<Rightarrow> if cls c then [(Some c, cs)] else [])"
| "ends Eps p = [p]"
| "ends (Seq r1 r2) p = concat (map (ends r2) (ends r1 p))"
| "ends (Alt r1 r2) p = ends r1 p @ ends r2 p"
| "ends (Star r) p = starIter (ends r) (length (snd p)) p"
| "ends Bol p = (case fst p of None \<Rightarrow> [p] | Some c \<Rightarrow> [])"
| "ends BolM p = (case fst p of None \<Rightarrow> [p] | Some c \<Rightarrow> if isLineTerminator c then [p] else [])"
| "ends Eol p = (case snd p of [] \<Rightarrow> [p] | c # cs \<Rightarrow> [])"

text \<open>
  The first match: the leftmost start position that has a match, and the end the
  matcher finds first from there. \<open>firstMatch\<close> returns the number of characters
  before the match and the rest of the subject after it.
\<close>

fun firstMatchFrom :: "re \<Rightarrow> int option \<Rightarrow> jsstring \<Rightarrow> nat \<Rightarrow> (nat \<times> jsstring) option" where
  "firstMatchFrom r prev [] k =
     (case ends r (prev, []) of [] \<Rightarrow> None | q # qs \<Rightarrow> Some (k, snd q))"
| "firstMatchFrom r prev (c # cs) k =
     (case ends r (prev, c # cs) of
        [] \<Rightarrow> firstMatchFrom r (Some c) cs (Suc k)
      | q # qs \<Rightarrow> Some (k, snd q))"

definition firstMatch :: "re \<Rightarrow> jsstring \<Rightarrow> (nat \<times> jsstring) option" where
  "firstMatch r s = firstMatchFrom r None s 0"

text \<open>\<open>regex.test(s)\<close>, and \<open>s.replace(regex, '')\<close> for a regex without the \<open>g\<close> flag.\<close>

definition test :: "re \<Rightarrow> jsstring \<Rightarrow> bool" where
  "test r s = (case firstMatch r s of None \<Rightarrow> False | Some m \<Rightarrow> True)"

definition removeFirst :: "re \<Rightarrow> jsstring \<Rightarrow> jsstring" where
  "removeFirst r s = (case firstMatch r s of None \<Rightarrow> s | Some (k, rest) \<Rightarrow> take k s @ rest)"

text \<open>
  \<open>s.replace(regex, '')\<close> for a regex with the \<open>g\<close> flag: every match is removed, the
  search going on after each. After an empty match the matcher steps one character on.
\<close>

function removeAll :: "re \<Rightarrow> int option \<Rightarrow> jsstring \<Rightarrow> jsstring" where
  "removeAll r prev s =
     (case ends r (prev, s) of
        [] \<Rightarrow> (case s of [] \<Rightarrow> [] | c # cs \<Rightarrow> c # removeAll r (Some c) cs)
      | q # qs \<Rightarrow>
          if length (snd q) < length s then removeAll r (fst q) (snd q)
          else (case s of [] \<Rightarrow> [] | c # cs \<Rightarrow> c # removeAll r (Some c) cs))"
  by pat_completeness auto
termination
  by (relation "measure (\<lambda>(r, prev, s). length s)") auto

declare removeAll.simps [simp del]

subsection \<open>Building regular expressions\<close>

definition Seqs :: "re list \<Rightarrow> re" where
  "Seqs rs = foldr Seq rs Eps"

definition Plus :: "re \<Rightarrow> re" where
  "Plus r = Seq r (Star r)"

definition Opt :: "re \<Rightarrow> re" where
  "Opt r = Alt r Eps"

definition chr :: "int \<Rightarrow> re" where
  "chr c = Atom (\<lambda>x. x = c)"

text \<open>
  Under the \<open>i\<close> flag (without \<open>u\<close>) two code units match when their upper-case forms
  agree, and a code unit beyond ASCII never matches an ASCII one. All the letters in
  the patterns with the \<open>i\<close> flag are ASCII, so only ASCII case matters.
\<close>

definition upper :: "int \<Rightarrow> int" where
  "upper c = (if 97 \<le> c \<and> c \<le> 122 then c - 32 else c)"

definition chri :: "int \<Rightarrow> re" where
  "chri c = Atom (\<lambda>x. upper x = upper c)"

text \<open>A literal text, case-sensitive and case-insensitive.\<close>

definition str :: "string \<Rightarrow> re" where
  "str s = Seqs (map chr (ascii s))"

definition stri :: "string \<Rightarrow> re" where
  "stri s = Seqs (map chri (ascii s))"

text \<open>\<open>\s\<close>, \<open>\S\<close>, \<open>\d\<close> and \<open>.\<close> (any character but a line terminator).\<close>

definition sp :: re where "sp = Atom isSpace"
definition nonsp :: re where "nonsp = Atom (\<lambda>c. \<not> isSpace c)"
definition digit :: re where "digit = Atom (\<lambda>c. 48 \<le> c \<and> c \<le> 57)"
definition dot :: re where "dot = Atom (\<lambda>c. \<not> isLineTerminator c)"

section \<open>The tmux monitor (class TmuxMonitor)\<close>

subsection \<open>Classifying a line\<close>

text \<open>\<open>_stripAnsi\<close>: \<open>text.replace(/\u001b\[[0-9;]*m/g, '')\<close>.\<close>

definition reAnsi :: re where
  "reAnsi = Seqs [chr 0x1B, chr 0x5B, Star (Atom (\<lambda>c. (48 \<le> c \<and> c \<le> 57) \<or> c = 59)), chr 0x6D]"

definition stripAnsi :: "jsstring \<Rightarrow> jsstring" where
  "stripAnsi text = removeAll reAnsi None text"

text \<open>
  The prompt marker is U+203A; a border before it is U+2502 or the ASCII bar.
  \<open>_isPromptLine\<close> tests \<open>/^\s*(?:[\<bar>|]\s*)?\<rangle>\s+\S/\<close> and \<open>_isPromptOnlyLine\<close> tests
  \<open>/^\s*(?:[\<bar>|]\s*)?\<rangle>\s*(?:[\<bar>|]\s*)?$/\<close> (writing \<open>\<bar>\<close> for the border and \<open>\<rangle>\<close> for
  the marker), both on the line without its colour codes. \<open>rePromptPrefix\<close> is the
  pattern \<open>/^\s*(?:[\<bar>|]\s*)?\<rangle>\s+/\<close> that the extractors remove from a prompt line.
\<close>

definition marker :: re where "marker = chr 0x203A"
definition bar :: re where "bar = Atom (\<lambda>c. c = 0x2502 \<or> c = 0x7C)"

definition rePromptLine :: re where
  "rePromptLine = Seqs [Bol, Star sp, Opt (Seqs [bar, Star sp]), marker, Plus sp, nonsp]"

definition rePromptOnlyLine :: re where
  "rePromptOnlyLine =
     Seqs [Bol, Star sp, Opt (Seqs [bar, Star sp]), marker, Star sp, Opt (Seqs [bar, Star sp]), Eol]"

definition rePromptPrefix :: re where
  "rePromptPrefix = Seqs [Bol, Star sp, Opt (Seqs [bar, Star sp]), marker, Plus sp]"

definition isPromptLine :: "jsstring \<Rightarrow> bool" where
  "isPromptLine line = test rePromptLine (stripAnsi line)"

definition isPromptOnlyLine :: "jsstring \<Rightarrow> bool" where
  "isPromptOnlyLine line = test rePromptOnlyLine (stripAnsi line)"

text \<open>
  \<open>isUiLine\<close>, the same local function in the three extractors: the line includes
  "? for shortcuts" or "context left", or matches \<open>/^[\s...]+$/\<close> with the box-drawing
  glyphs U+256D, U+2570, U+2502, U+2500, U+2524, U+2510, U+2518, U+250C, U+2514.
\<close>

definition txtShortcuts :: jsstring where "txtShortcuts = ascii ''? for shortcuts''"
definition txtContextLeft :: jsstring where "txtContextLeft = ascii ''context left''"

definition isBorderGlyph :: "int \<Rightarrow> bool" where
  "isBorderGlyph c =
     (isSpace c \<or> c = 0x256D \<or> c = 0x2570 \<or> c = 0x2502 \<or> c = 0x2500 \<or> c = 0x2524
      \<or> c = 0x2510 \<or> c = 0x2518 \<or> c = 0x250C \<or> c = 0x2514)"

definition reBorderRow :: re where
  "reBorderRow = Seqs [Bol, Plus (Atom isBorderGlyph), Eol]"

definition isUiLine :: "jsstring \<Rightarrow> bool" where
  "isUiLine line =
     (includes_js line txtShortcuts \<or> includes_js line txtContextLeft \<or> test reBorderRow line)"

subsection \<open>Extracting the conversation\<close>

record conversation =
  userQuestion :: jsstring
  claudeResponse :: jsstring
  fullContext :: jsstring

definition txtRecentCommand :: jsstring where "txtRecentCommand = ascii ''Recent command''"
definition txtTaskCompleted :: jsstring where "txtTaskCompleted = ascii ''Task completed''"
definition txtNoUserInput :: jsstring where "txtNoUserInput = ascii ''No user input''"
definition txtNoResponse :: jsstring where "txtNoResponse = ascii ''No response''"

text \<open>
  \<open>for (let i = n - 1; i >= 0; i--) { if (P(xs[i])) { index = i; break; } }\<close>:
  the greatest index below \<open>n\<close> whose element satisfies \<open>P\<close>, \<open>None\<close> for the source's
  \<open>-1\<close>. Every call has \<open>n \<le> length xs\<close>.
\<close>

fun scanDown :: "('a \<Rightarrow> bool) \<Rightarrow> 'a list \<Rightarrow> nat \<Rightarrow> nat option" where
  "scanDown P xs 0 = None"
| "scanDown P xs (Suc i) = (if P (xs ! i) then Some i else scanDown P xs i)"

text \<open>
  The loop that gathers the response, run over the lines from \<open>responseStart\<close> on:
  blank lines are skipped, a prompt line ends the loop, prompt-only and UI lines are
  skipped, every other line is pushed trimmed.
\<close>

fun collectResponse :: "jsstring list \<Rightarrow> jsstring list" where
  "collectResponse [] = []"
| "collectResponse (l # ls) =
     (let trimmed = trim l in
      if trimmed = [] then collectResponse ls
      else if isPromptLine trimmed then []
      else if isPromptOnlyLine trimmed then collectResponse ls
      else if isUiLine trimmed then collectResponse ls
      else trimmed # collectResponse ls)"

text \<open>
  \<open>_extractRecentConversation(fullContent)\<close>; \<open>outputBuffer\<close> is the field of the
  monitor, read when \<open>fullContent\<close> is empty.
\<close>

definition extractRecentConversation :: "jsstring \<Rightarrow> jsstring list \<Rightarrow> conversation" where
  "extractRecentConversation fullContent outputBuffer =
     (let lines = sliceLast 200
            (splitLines (if fullContent \<noteq> [] then fullContent else joinLines outputBuffer));
          promptTextIndex = scanDown (\<lambda>l. isPromptLine (trim l)) lines (length lines);
          userQuestion0 =
            (case promptTextIndex of
               None \<Rightarrow> []
             | Some i \<Rightarrow> trim (removeFirst rePromptPrefix (trim (lines ! i))));
          responseStart =
            (case promptTextIndex of Some i \<Rightarrow> i + 1 | None \<Rightarrow> length lines - 40);
          responseLines = collectResponse (drop responseStart lines);
          userQuestion1 =
            (if userQuestion0 = [] \<and> promptTextIndex = None then
               (case scanDown (\<lambda>l. trim l \<noteq> [] \<and> \<not> isUiLine (trim l)
                                    \<and> \<not> isPromptOnlyLine (trim l)) lines responseStart of
                  None \<Rightarrow> []
                | Some i \<Rightarrow> trim (lines ! i))
             else userQuestion0);
          claudeResponse0 = trim (joinLines responseLines);
          claudeResponse1 =
            (if claudeResponse0 = [] then
               trim (joinLines
                 (filter (\<lambda>line. line \<noteq> [] \<and> \<not> isUiLine line \<and> \<not> isPromptOnlyLine line)
                    (map trim (drop (max responseStart (length lines - 40)) lines))))
             else claudeResponse0)
      in \<lparr>userQuestion = (if userQuestion1 = [] then txtRecentCommand else userQuestion1),
          claudeResponse = (if claudeResponse1 = [] then txtTaskCompleted else claudeResponse1),
          fullContext = joinLines lines\<rparr>)"

text \<open>
  \<open>extractConversation(text, sessionName)\<close> returns \<open>{userQuestion, claudeResponse}\<close>,
  here a pair. The call \<open>traceCapture.recordUserInput\<close> it makes when it finds a prompt
  does not touch the result and is left out.
\<close>

definition extractConversation :: "jsstring \<Rightarrow> jsstring \<times> jsstring" where
  "extractConversation text =
     (let normalizedLines = splitLines text;
          promptIndex = scanDown (\<lambda>l. isPromptLine (trim l)) normalizedLines
                          (length normalizedLines);
          userQuestion0 =
            (case promptIndex of
               None \<Rightarrow> []
             | Some i \<Rightarrow> trim (removeFirst rePromptPrefix (trim (normalizedLines ! i))));
          responseLines =
            (case promptIndex of
               None \<Rightarrow> []
             | Some i \<Rightarrow> collectResponse (drop (i + 1) normalizedLines));
          userQuestion1 =
            (if userQuestion0 = [] then
               (case scanDown (\<lambda>l. trim l \<noteq> [] \<and> \<not> isUiLine (trim l)) normalizedLines
                       (length normalizedLines) of
                  None \<Rightarrow> []
                | Some i \<Rightarrow> trim (normalizedLines ! i))
             else userQuestion0);
          claudeResponse0 = trim (joinLines responseLines)
      in (if userQuestion1 = [] then txtNoUserInput else userQuestion1,
          if claudeResponse0 = [] then txtNoResponse else claudeResponse0))"

subsection \<open>The conversation in the words of the specification\<close>

text \<open>
  The four classes of a line: a prompt line, a prompt-only line, a UI line, and
  otherwise, when it is not blank, a content line. \<open>sourceLines\<close> is the window
  \<open>_extractRecentConversation\<close> reads, the last 200 lines of the capture (of the output
  buffer when the capture is empty); \<open>contentAfter i lines\<close> are the trimmed content
  lines after line \<open>i\<close>.
\<close>

definition isContentLine :: "jsstring \<Rightarrow> bool" where
  "isContentLine line =
     (line \<noteq> [] \<and> \<not> isPromptLine line \<and> \<not> isPromptOnlyLine line \<and> \<not> isUiLine line)"

definition contentAfter :: "nat \<Rightarrow> jsstring list \<Rightarrow> jsstring list" where
  "contentAfter i lines = filter isContentLine (map trim (drop (Suc i) lines))"

definition sourceLines :: "jsstring \<Rightarrow> jsstring list \<Rightarrow> jsstring list" where
  "sourceLines fullContent buffer =
     sliceLast 200 (splitLines (if fullContent \<noteq> [] then fullContent else joinLines buffer))"

text \<open>
  The text of a prompt line: what is left when the leading white space, one border
  glyph with the white space after it if there is one, the marker, and the white space
  after the marker are taken away.
\<close>

definition afterBorder :: "jsstring \<Rightarrow> jsstring" where
  "afterBorder s =
     (case s of [] \<Rightarrow> [] | c # cs \<Rightarrow> if c = 0x2502 \<or> c = 0x7C then dropWhile isSpace cs else c # cs)"

definition promptText :: "jsstring \<Rightarrow> jsstring" where
  "promptText line = dropWhile isSpace (tl (afterBorder (dropWhile isSpace line)))"

subsection \<open>Auxiliary functions for reasoning about the matcher\<close>

text \<open>
  \<open>runs P prev s\<close> lists the positions after each prefix of the longest run of
  characters in \<open>P\<close> at the start of \<open>s\<close>, longest first: what a greedy \<open>P*\<close> offers.
  \<open>skipRun\<close> is the first of them.
\<close>

fun runs :: "(int \<Rightarrow> bool) \<Rightarrow> int option \<Rightarrow> jsstring \<Rightarrow> pos list" where
  "runs P prev [] = [(prev, [])]"
| "runs P prev (c # cs) = (if P c then runs P (Some c) cs @ [(prev, c # cs)] else [(prev, c # cs)])"

fun skipRun :: "(int \<Rightarrow> bool) \<Rightarrow> int option \<Rightarrow> jsstring \<Rightarrow> pos" where
  "skipRun P prev [] = (prev, [])"
| "skipRun P prev (c # cs) = (if P c then skipRun P (Some c) cs else (prev, c # cs))"

definition afterBorderPos :: "pos \<Rightarrow> pos" where
  "afterBorderPos p =
     (case snd p of
        [] \<Rightarrow> p
      | c # cs \<Rightarrow> if c = 0x2502 \<or> c = 0x7C then skipRun isSpace (Some c) cs else p)"

text \<open>
  \<open>atomsIn Q r\<close>: every character class of \<open>r\<close> lies within \<open>Q\<close>, so a match of \<open>r\<close>
  consumes characters of \<open>Q\<close> only. \<open>isAnsiChar\<close> are the characters a colour code is
  made of, \<open>isPromptGlyph\<close> those a prompt-only line is made of.
\<close>

fun atomsIn :: "(int \<Rightarrow> bool) \<Rightarrow> re \<Rightarrow> bool" where
  "atomsIn Q (Atom P) = (\<forall>c. P c \<longrightarrow> Q c)"
| "atomsIn Q Eps = True"
| "atomsIn Q (Seq r1 r2) = (atomsIn Q r1 \<and> atomsIn Q r2)"
| "atomsIn Q (Alt r1 r2) = (atomsIn Q r1 \<and> atomsIn Q r2)"
| "atomsIn Q (Star r) = atomsIn Q r"
| "atomsIn Q Bol = True"
| "atomsIn Q BolM = True"
| "atomsIn Q Eol = True"

definition isAnsiChar :: "int \<Rightarrow> bool" where
  "isAnsiChar c = (c = 0x1B \<or> c = 0x5B \<or> (48 \<le> c \<and> c \<le> 57) \<or> c = 59 \<or> c = 0x6D)"

definition isPromptGlyph :: "int \<Rightarrow> bool" where
  "isPromptGlyph c = (isSpace c \<or> c = 0x2502 \<or> c = 0x7C \<or> c = 0x203A)"

subsection \<open>The state of a monitor\<close>

text \<open>
  The fields of the instance that the methods below read or write. \<open>monitorInterval\<close>
  is the handle \<open>setInterval\<close> returned, \<open>None\<close> for \<open>null\<close>. Two fields describe the
  JavaScript runtime rather than the object: \<open>activeTimers\<close>, the interval timers that
  are scheduled, and \<open>timerSeq\<close>, the handle the next \<open>setInterval\<close> returns.
\<close>

record monitor =
  sessionName :: jsstring
  isMonitoring :: bool
  monitorInterval :: "nat option"
  lastPaneContent :: jsstring
  outputBuffer :: "jsstring list"
  lastCompletionTail :: jsstring
  lastCompletionKey :: jsstring
  lastTelegramDoneKey :: jsstring
  activeTimers :: "nat list"
  timerSeq :: nat

definition maxBufferSize :: nat where
  "maxBufferSize = 1000"

text \<open>
  The constructor. The session name is
  \<open>sessionName || process.env.TMUX_SESSION || 'codex-real'\<close>: the argument (\<open>None\<close> for
  \<open>null\<close>, the default of the parameter), else the environment variable (\<open>None\<close> when it
  is not set), else the literal. \<open>a || b\<close> is \<open>b\<close> when \<open>a\<close> is \<open>null\<close>, \<open>undefined\<close> or the
  empty string.
\<close>

definition orElse :: "jsstring option \<Rightarrow> jsstring \<Rightarrow> jsstring" where
  "orElse a b = (case a of None \<Rightarrow> b | Some s \<Rightarrow> if s = [] then b else s)"

definition txtCodexReal :: jsstring where
  "txtCodexReal = ascii ''codex-real''"

definition newMonitor :: "jsstring option \<Rightarrow> jsstring option \<Rightarrow> monitor" where
  "newMonitor name envSession =
     \<lparr>sessionName = orElse name (orElse envSession txtCodexReal), isMonitoring = False,
      monitorInterval = None, lastPaneContent = [],
      outputBuffer = [], lastCompletionTail = [], lastCompletionKey = [],
      lastTelegramDoneKey = [], activeTimers = [], timerSeq = 0\<rparr>"

subsection \<open>Detecting a completion\<close>

text \<open>The separator of the dedup keys, \<open>::\<close>.\<close>

definition keySep :: jsstring where "keySep = ascii ''::''"

definition reTelegramDone :: re where
  "reTelegramDone = stri ''Telegram done''"

text \<open>\<open>/After task is completed, write \"Telegram done\" here/i\<close>.\<close>

definition reAfterTask :: re where
  "reAfterTask = Seqs [stri ''After task is completed, write '', chr 34, stri ''Telegram done'',
                       chr 34, stri '' here'']"

text \<open>
  The response loop of \<open>_detectTelegramDoneCompletion\<close>. Its test \<open>i > promptIndex\<close>
  always holds: the loop starts at \<open>promptIndex + 1\<close>, and \<open>promptIndex\<close> is \<open>-1\<close> when
  no prompt line was found.
\<close>

fun collectDoneResponse :: "jsstring list \<Rightarrow> jsstring list" where
  "collectDoneResponse [] = []"
| "collectDoneResponse (l # ls) =
     (let trimmed = trim (stripAnsi l) in
      if trimmed = [] then collectDoneResponse ls
      else if isPromptLine trimmed then []
      else if isPromptOnlyLine trimmed then collectDoneResponse ls
      else if isUiLine trimmed then collectDoneResponse ls
      else if test reAfterTask trimmed then collectDoneResponse ls
      else trimmed # collectDoneResponse ls)"

text \<open>\<open>lines.slice(a, b)\<close> with \<open>b \<le> lines.length\<close>.\<close>

definition sliceRange :: "nat \<Rightarrow> nat \<Rightarrow> 'a list \<Rightarrow> 'a list" where
  "sliceRange a b xs = take (b - a) (drop a xs)"

definition detectTelegramDoneCompletion :: "jsstring \<Rightarrow> monitor \<Rightarrow> conversation option \<times> monitor" where
  "detectTelegramDoneCompletion paneText m =
     (if paneText = [] then (None, m)
      else
        let lines = splitLines paneText in
        case scanDown (test reTelegramDone) lines (length lines) of
          None \<Rightarrow> (None, m)
        | Some lastIndex \<Rightarrow>
            let promptIndex = scanDown isPromptLine lines (lastIndex + 1);
                promptLine =
                  (case promptIndex of
                     None \<Rightarrow> []
                   | Some i \<Rightarrow> trim (removeFirst rePromptPrefix (stripAnsi (lines ! i))));
                doneLine = trim (stripAnsi (lines ! lastIndex));
                key = (if promptLine \<noteq> [] then promptLine @ keySep @ doneLine
                       else showNat lastIndex @ keySep @ doneLine)
            in
            if key = lastTelegramDoneKey m then (None, m)
            else
              let responseStart =
                    (case promptIndex of Some i \<Rightarrow> i + 1 | None \<Rightarrow> lastIndex - 40);
                  responseLines = collectDoneResponse (drop responseStart lines);
                  response = trim (joinLines responseLines)
              in (Some \<lparr>userQuestion = (if promptLine = [] then txtRecentCommand else promptLine),
                        claudeResponse = (if response = [] then txtTaskCompleted else response),
                        fullContext = joinLines (sliceRange (responseStart - 5)
                                        (min (length lines) (lastIndex + 10)) lines)\<rparr>,
                  m\<lparr>lastTelegramDoneKey := key\<rparr>))"

text \<open>
  The patterns of \<open>_detectCompletionFromPane\<close>: \<open>/Worked for \d+s/i\<close>,
  \<open>/\<midarrow> Worked for \d+s/i\<close> (with U+2500), \<open>/(^|\n)\<bullet>\s+/m\<close> (with U+2022) and
  \<open>/\(no output\)/i\<close>.
\<close>

definition reWorkedFor :: re where
  "reWorkedFor = Seqs [stri ''Worked for '', Plus digit, stri ''s'']"

definition reDashWorkedFor :: re where
  "reDashWorkedFor = Seqs [chr 0x2500, stri '' Worked for '', Plus digit, stri ''s'']"

definition reBulletAfterNewline :: re where
  "reBulletAfterNewline = Seqs [Alt BolM (chr 10), chr 0x2022, Plus sp]"

definition reNoOutput :: re where
  "reNoOutput = stri ''(no output)''"

text \<open>\<open>response.match(/Telegram done/i)?.index || 0\<close>.\<close>

definition matchIndex :: "re \<Rightarrow> jsstring \<Rightarrow> nat" where
  "matchIndex r s = (case firstMatch r s of None \<Rightarrow> 0 | Some (k, rest) \<Rightarrow> k)"

definition detectCompletionFromPane :: "jsstring \<Rightarrow> monitor \<Rightarrow> bool \<times> monitor" where
  "detectCompletionFromPane paneText m =
     (if paneText = [] then (False, m)
      else
        let conv = extractRecentConversation paneText (outputBuffer m);
            response = claudeResponse conv
        in
        if response = [] then (False, m)
        else
          let hasTelegramDone = test reTelegramDone response;
              hasWorkedFor = (test reWorkedFor response \<or> test reDashWorkedFor response);
              hasSummary = (test reBulletAfterNewline response \<or> test reNoOutput response)
          in
          if hasTelegramDone then
            (let key = userQuestion conv @ keySep @ showNat (matchIndex reTelegramDone response)
             in if key = lastCompletionKey m then (False, m)
                else (True, m\<lparr>lastCompletionKey := key\<rparr>))
          else if \<not> (hasWorkedFor \<or> hasSummary) then (False, m)
          else
            (let key = userQuestion conv @ keySep @ sliceLast 500 response
             in if key = lastCompletionKey m then (False, m)
                else (True, m\<lparr>lastCompletionKey := key\<rparr>)))"

text \<open>
  \<open>.*\<close> in the patterns below. \<open>completionIndicators\<close> is the local list of
  \<open>_detectResponseCompletion\<close>, in the order of the source.
\<close>

definition dots :: re where "dots = Star dot"

definition completionIndicators :: "re list" where
  "completionIndicators =
     [Seqs [stri ''The file'', dots, stri ''has been updated''],
      stri ''File created successfully'',
      stri ''successfully'',
      stri ''completed'',
      chr 0x2705,
      stri ''done'',
      stri ''context left'',
      reWorkedFor,
      reNoOutput,
      Seqs [BolM, chr 0x2022, Plus sp],
      stri ''If you want'']"

definition nonBlank :: "jsstring \<Rightarrow> bool" where
  "nonBlank line = (trim line \<noteq> [])"

definition detectResponseCompletion :: "jsstring \<Rightarrow> jsstring \<Rightarrow> jsstring \<Rightarrow> bool" where
  "detectResponseCompletion recentText bufferText paneText =
     (let sourceText = (if paneText \<noteq> [] then paneText
                        else if bufferText \<noteq> [] then bufferText else recentText);
          tailLines = filter nonBlank (sliceLast 8 (splitLines sourceText));
          hasPromptTail = list_ex isPromptOnlyLine tailLines
      in
      if hasPromptTail then True
      else
        let hasClaudeResponse = (test (Seqs [chr 0x23FA, dots]) bufferText
                                 \<or> test (Seqs [chr 0x23FA, dots]) recentText);
            hasBoxStart = test (Seqs [chr 0x256D, dots, chr 0x256E]) recentText;
            hasBoxEnd = test (Seqs [chr 0x2570, dots, chr 0x256F]) recentText;
            isCompleteResponse = (hasClaudeResponse \<and> (hasBoxStart \<or> hasBoxEnd))
        in list_ex (\<lambda>pattern. test pattern recentText) completionIndicators
           \<or> list_ex (\<lambda>pattern. test pattern bufferText) completionIndicators
           \<or> isCompleteResponse)"

text \<open>The field \<open>completionPatterns\<close> of the constructor, in the order of the source.\<close>

definition completionPatterns :: "re list" where
  "completionPatterns =
     [Seqs [stri ''task'', dots, stri ''completed''],
      Seqs [stri ''successfully'', dots, stri ''completed''],
      Seqs [stri ''completed'', dots, stri ''successfully''],
      Seqs [stri ''implementation'', dots, stri ''complete''],
      Seqs [stri ''changes'', dots, stri ''made''],
      Seqs [stri ''created'', dots, stri ''successfully''],
      Seqs [stri ''updated'', dots, stri ''successfully''],
      Seqs [stri ''file'', dots, stri ''created''],
      Seqs [stri ''file'', dots, stri ''updated''],
      stri ''finished'',
      stri ''done'',
      chr 0x2705,
      stri ''All set'',
      stri ''Ready'',
      Seqs [stri ''The file'', dots, stri ''has been updated''],
      stri ''File created successfully'',
      stri ''Command executed successfully'',
      stri ''Operation completed'',
      stri ''context left'',
      reWorkedFor,
      Seqs [chr 0x2022, Plus sp, stri ''Edited''],
      Seqs [chr 0x2022, Plus sp, stri ''Updated''],
      Seqs [BolM, chr 0x2022, Plus sp],
      reNoOutput,
      stri ''If you want'',
      Seqs [chr 0x2570, dots, chr 0x256F, Star sp, Eol],
      Seqs [Bol, Star sp, chr 0x3E, Star sp, Eol],
      Seqs [Bol, Star sp, marker, Star sp, Eol]]"

definition detectTaskCompletion :: "jsstring \<Rightarrow> jsstring \<Rightarrow> bool" where
  "detectTaskCompletion recentText bufferText =
     (list_ex (\<lambda>pattern. test pattern recentText) completionPatterns
      \<or> list_ex (\<lambda>pattern. test pattern bufferText) completionPatterns)"

text \<open>The local list \<open>meaningfulWaitingPatterns\<close> of \<open>_shouldTriggerWaitingNotification\<close>.\<close>

definition meaningfulWaitingPatterns :: "re list" where
  "meaningfulWaitingPatterns =
     [Seqs [stri ''waiting'', dots, stri ''for''],
      Seqs [stri ''need'', dots, stri ''input''],
      Seqs [stri ''please'', dots, stri ''provide''],
      Seqs [stri ''what'', dots, stri ''would you like''],
      stri ''Do you want'',
      stri ''Would you like'',
      stri ''context left'']"

definition shouldTriggerWaitingNotification :: "jsstring \<Rightarrow> bool" where
  "shouldTriggerWaitingNotification recentText =
     (list_ex (\<lambda>pattern. test pattern recentText) meaningfulWaitingPatterns
      \<and> \<not> includes_js recentText txtShortcuts)"

subsection \<open>Events and the poll cycle\<close>

text \<open>
  \<open>_captureCurrentContent\<close>: the output of \<open>tmux capture-pane\<close>, or the empty string
  when \<open>execSync\<close> throws (\<open>None\<close>); the exception is caught inside the method.
\<close>

definition captureCurrentContent :: "jsstring option \<Rightarrow> jsstring" where
  "captureCurrentContent execResult = (case execResult of None \<Rightarrow> [] | Some content \<Rightarrow> content)"

text \<open>
  The two events a monitor emits, \<open>taskCompleted\<close> and \<open>waitingForInput\<close>, with their
  fields \<open>newOutput\<close> and \<open>conversation\<close>. The other fields of the payload are the
  session name, the clock, and \<open>triggerText\<close>, which is \<open>newOutput\<close> joined.
\<close>

datatype event =
    TaskCompleted "jsstring list" conversation
  | WaitingForInput "jsstring list" conversation

fun conversationOf :: "event \<Rightarrow> conversation" where
  "conversationOf (TaskCompleted newOutput conv) = conv"
| "conversationOf (WaitingForInput newOutput conv) = conv"

text \<open>
  \<open>_handleTaskCompletion\<close> and \<open>_handleWaitingForInput\<close> capture the pane again for the
  conversation they attach; \<open>recapture\<close> is what that call of \<open>tmux capture-pane\<close>
  gives. With a \<open>conversationOverride\<close> the capture is made and not used.
\<close>

definition handleTaskCompletion ::
    "jsstring list \<Rightarrow> conversation option \<Rightarrow> jsstring option \<Rightarrow> monitor \<Rightarrow> event" where
  "handleTaskCompletion newLines conversationOverride recapture m =
     TaskCompleted newLines
       (case conversationOverride of
          Some conv \<Rightarrow> conv
        | None \<Rightarrow> extractRecentConversation (captureCurrentContent recapture) (outputBuffer m))"

definition handleWaitingForInput :: "jsstring list \<Rightarrow> jsstring option \<Rightarrow> monitor \<Rightarrow> event" where
  "handleWaitingForInput newLines recapture m =
     WaitingForInput newLines
       (extractRecentConversation (captureCurrentContent recapture) (outputBuffer m))"

definition analyzeNewContent ::
    "jsstring list \<Rightarrow> jsstring \<Rightarrow> jsstring option \<Rightarrow> monitor \<Rightarrow> monitor \<times> event list" where
  "analyzeNewContent newLines currentContent recapture m =
     (let recentText = joinLines newLines;
          bufferText = joinLines (sliceLast 20 (outputBuffer m));
          paneText = (if currentContent \<noteq> [] then currentContent else lastPaneContent m)
      in
      case detectTelegramDoneCompletion paneText m of
        (Some conv, m1) \<Rightarrow> (m1, [handleTaskCompletion newLines (Some conv) recapture m1])
      | (None, m1) \<Rightarrow>
          (case detectCompletionFromPane paneText m1 of
             (True, m2) \<Rightarrow> (m2, [handleTaskCompletion newLines None recapture m2])
           | (False, m2) \<Rightarrow>
               let hasResponseEnd = detectResponseCompletion recentText bufferText paneText;
                   hasTaskCompletion = detectTaskCompletion recentText bufferText
               in
               if hasTaskCompletion \<or> hasResponseEnd then
                 (m2, [handleTaskCompletion newLines None recapture m2])
               else if shouldTriggerWaitingNotification recentText then
                 (m2, [handleWaitingForInput newLines recapture m2])
               else (m2, [])))"

text \<open>
  \<open>_getNewLines\<close>. With more lines than before, the added lines are the last
  \<open>newLength - oldLength\<close>; with as many, those of the last five that changed.
\<close>

definition getNewLines :: "jsstring \<Rightarrow> jsstring \<Rightarrow> jsstring list" where
  "getNewLines oldContent newContent =
     (let oldLines = splitLines oldContent;
          newLines = splitLines newContent;
          oldLength = length oldLines;
          newLength = length newLines;
          addedLines =
            (if newLength > oldLength then sliceLast (newLength - oldLength) newLines
             else if newLength = oldLength then
               map (\<lambda>i. newLines ! i)
                 (filter (\<lambda>i. i < oldLength \<and> newLines ! i \<noteq> oldLines ! i)
                    [newLength - 5 ..< newLength])
             else [])
      in filter nonBlank addedLines)"

text \<open>
  \<open>_checkForChanges\<close>, one poll cycle: \<open>execResult\<close> is what the capture of the cycle
  gives, \<open>recapture\<close> what the capture inside an event handler gives. The result is the
  new state and the events emitted, in order.
\<close>

definition checkForChanges ::
    "jsstring option \<Rightarrow> jsstring option \<Rightarrow> monitor \<Rightarrow> monitor \<times> event list" where
  "checkForChanges execResult recapture m =
     (let currentContent = captureCurrentContent execResult;
          contentChanged = (currentContent \<noteq> lastPaneContent m);
          (m1, events1) =
            (if contentChanged then
               let newLines = getNewLines (lastPaneContent m) currentContent in
               if newLines \<noteq> [] then
                 let pushed = outputBuffer m @ newLines;
                     buffer = (if length pushed > maxBufferSize
                               then sliceLast maxBufferSize pushed else pushed)
                 in analyzeNewContent newLines currentContent recapture
                      (m\<lparr>outputBuffer := buffer\<rparr>)
               else
                 let tailLines = filter nonBlank (sliceLast 20 (splitLines currentContent));
                     tailText = joinLines tailLines;
                     lastTailLine = (if tailLines = [] then [] else last tailLines);
                     hasPromptReturn = isPromptOnlyLine lastTailLine
                 in
                 if hasPromptReturn \<and> tailText \<noteq> [] \<and> tailText \<noteq> lastCompletionTail m then
                   analyzeNewContent (sliceLast 5 tailLines) currentContent recapture
                     (m\<lparr>lastCompletionTail := tailText\<rparr>)
                 else (m, [])
             else (m, []));
          (m2, events2) =
            (if currentContent \<noteq> [] \<and> contentChanged then
               (case detectTelegramDoneCompletion currentContent m1 of
                  (Some conv, m') \<Rightarrow> (m', [handleTaskCompletion [] (Some conv) recapture m'])
                | (None, m') \<Rightarrow> (m', []))
             else (m1, []))
      in (if contentChanged then m2\<lparr>lastPaneContent := currentContent\<rparr> else m2,
          events1 @ events2))"

subsection \<open>Starting and stopping\<close>

text \<open>
  \<open>_sessionExists\<close>: \<open>listing\<close> is the output of \<open>tmux list-sessions -F "#{session_name}"\<close>,
  \<open>None\<close> when \<open>execSync\<close> throws.
\<close>

definition sessionExists :: "jsstring option \<Rightarrow> monitor \<Rightarrow> bool" where
  "sessionExists listing m =
     (case listing of
        None \<Rightarrow> False
      | Some out \<Rightarrow> sessionName m \<in> set (splitLines (trim out)))"

text \<open>
  \<open>_startRealTimeMonitoring\<close>: a first capture whose result is dropped, then
  \<open>setInterval\<close>, which schedules a new timer and returns its handle.
\<close>

definition startRealTimeMonitoring :: "jsstring option \<Rightarrow> monitor \<Rightarrow> monitor" where
  "startRealTimeMonitoring execResult m =
     (let initial = captureCurrentContent execResult in
      m\<lparr>monitorInterval := Some (timerSeq m),
        activeTimers := activeTimers m @ [timerSeq m],
        timerSeq := Suc (timerSeq m)\<rparr>)"

text \<open>
  \<open>start\<close> returns normally (\<open>None\<close>) or throws the error "Tmux session ... not found";
  the state after the call is returned in both cases.
\<close>

datatype error = SessionNotFound jsstring

definition start :: "jsstring option \<Rightarrow> jsstring option \<Rightarrow> monitor \<Rightarrow> error option \<times> monitor" where
  "start listing execResult m =
     (if isMonitoring m then (None, m)
      else if \<not> sessionExists listing m then (Some (SessionNotFound (sessionName m)), m)
      else (None, startRealTimeMonitoring execResult (m\<lparr>isMonitoring := True\<rparr>)))"

text \<open>\<open>stop\<close>; \<open>clearInterval\<close> takes the timer off the schedule.\<close>

definition stop :: "monitor \<Rightarrow> monitor" where
  "stop m =
     (if \<not> isMonitoring m then m
      else
        (case monitorInterval m of
           None \<Rightarrow> m\<lparr>isMonitoring := False\<rparr>
         | Some h \<Rightarrow> m\<lparr>isMonitoring := False, monitorInterval := None,
                       activeTimers := filter (\<lambda>t. t \<noteq> h) (activeTimers m)\<rparr>))"

text \<open>The callback of the interval timer: \<open>if (this.isMonitoring) this._checkForChanges()\<close>.\<close>

definition tick :: "jsstring option \<Rightarrow> jsstring option \<Rightarrow> monitor \<Rightarrow> monitor \<times> event list" where
  "tick execResult recapture m =
     (if isMonitoring m then checkForChanges execResult recapture m else (m, []))"

subsection \<open>Runs of a monitor\<close>

text \<open>
  What can happen to an instance: a call of \<open>start\<close>, a call of \<open>stop\<close>, or the timer
  firing, each with what the pane answers at that moment. \<open>runOps\<close> applies a sequence
  of them.
\<close>

datatype op =
    Start "jsstring option" "jsstring option"
  | Stop
  | Tick "jsstring option" "jsstring option"

fun applyOp :: "op \<Rightarrow> monitor \<Rightarrow> monitor" where
  "applyOp (Start listing execResult) m = snd (start listing execResult m)"
| "applyOp Stop m = stop m"
| "applyOp (Tick execResult recapture) m = fst (tick execResult recapture m)"

definition runOps :: "op list \<Rightarrow> monitor \<Rightarrow> monitor" where
  "runOps ops m = foldl (\<lambda>m' operation. applyOp operation m') m ops"

text \<open>The fields that \<open>start\<close> and \<open>stop\<close> own, and the invariant that ties them.\<close>

definition control :: "monitor \<Rightarrow> jsstring \<times> bool \<times> nat option \<times> nat list \<times> nat" where
  "control m = (sessionName m, isMonitoring m, monitorInterval m, activeTimers m, timerSeq m)"

definition timerInv :: "monitor \<Rightarrow> bool" where
  "timerInv m =
     (if isMonitoring m then
        (case monitorInterval m of None \<Rightarrow> False | Some h \<Rightarrow> activeTimers m = [h])
      else activeTimers m = [])"

text \<open>
  The kind of an event, and a poll cycle during which the pane shows the same text to
  the capture of the cycle and to the capture of the event handler.
\<close>

fun isWaiting :: "event \<Rightarrow> bool" where
  "isWaiting (TaskCompleted newOutput conv) = False"
| "isWaiting (WaitingForInput newOutput conv) = True"

fun isCompleted :: "event \<Rightarrow> bool" where
  "isCompleted (TaskCompleted newOutput conv) = True"
| "isCompleted (WaitingForInput newOutput conv) = False"

definition poll :: "jsstring \<Rightarrow> monitor \<Rightarrow> monitor \<times> event list" where
  "poll pane m = checkForChanges (Some pane) (Some pane) m"

section \<open>Concrete panes and environments\<close>

text \<open>The inputs at which the theorems below are evaluated.\<close>

definition w_init :: io where
  "w_init = \<lparr>nsend = 0, ncap = 0, acts = []\<rparr>"

definition msgNoServer :: jsstring where
  "msgNoServer = ascii ''no server running''"

text \<open>The second keystroke of an injection (the command text) fails.\<close>

definition e_fail2 :: pane_env where
  "e_fail2 = \<lparr>sendError = (\<lambda>k. if k = 1 then Some msgNoServer else None),
              paneCapture = (\<lambda>k. CaptureOk [])\<rparr>"

text \<open>A pane that shows the confirmation dialog with its numbered options.\<close>

definition paneDialog :: jsstring where
  "paneDialog = txtProceed @ [10] @ txtOneYes @ [10] @ txtTwoYes"

text \<open>The pane shows the dialog and the tmux server refuses every keystroke.\<close>

definition e_dialog_sendfail :: pane_env where
  "e_dialog_sendfail = \<lparr>sendError = (\<lambda>k. Some msgNoServer),
                        paneCapture = (\<lambda>k. CaptureOk paneDialog)\<rparr>"

text \<open>
  The three keystrokes of the injection are delivered, the pane then shows the dialog,
  and the keystroke that answers it fails.
\<close>

definition e_inject_hang :: pane_env where
  "e_inject_hang = \<lparr>sendError = (\<lambda>k. if k < 3 then None else Some msgNoServer),
                    paneCapture = (\<lambda>k. CaptureOk paneDialog)\<rparr>"

text \<open>A pane with some output and an empty input prompt, and nothing else.\<close>

definition paneIdle :: jsstring where
  "paneIdle = ascii ''All finished'' @ [10] @ txtPrompt"

definition e_dialog_then_idle :: pane_env where
  "e_dialog_then_idle = \<lparr>sendError = (\<lambda>k. None),
       paneCapture = (\<lambda>k. if k = 0 then CaptureOk paneDialog else CaptureOk paneIdle)\<rparr>"

text \<open>
  The prompt of Codex, U+203A, alone on the last line after some output: an idle pane
  with no dialog on it. The keystrokes are delivered, the first capture shows the
  dialog and every later capture the idle pane.
\<close>

definition paneCodexIdle :: jsstring where
  "paneCodexIdle = ascii ''All finished'' @ [10] @ [0x203A, 0x20]"

definition e_dialog_then_codex :: pane_env where
  "e_dialog_then_codex = \<lparr>sendError = (\<lambda>k. None),
       paneCapture = (\<lambda>k. if k = 0 then CaptureOk paneDialog else CaptureOk paneCodexIdle)\<rparr>"

text \<open>
  A monitor made for the session "codex" (no environment variable set), and two answers
  of \<open>tmux list-sessions\<close>.
\<close>

definition txtCodex :: jsstring where
  "txtCodex = ascii ''codex''"

definition listingCodex :: jsstring where
  "listingCodex = ascii ''main'' @ [10] @ ascii ''codex'' @ [10]"

definition listingOther :: jsstring where
  "listingOther = ascii ''main'' @ [10]"

definition mRunning :: monitor where
  "mRunning = snd (start (Some listingCodex) (Some []) (newMonitor (Some txtCodex) None))"

text \<open>Lines and panes of a conversation: a prompt line with text, a bare prompt.\<close>

definition linePromptFix :: jsstring where
  "linePromptFix = [0x203A] @ ascii '' fix the bug''"

definition lineBarePrompt :: jsstring where
  "lineBarePrompt = [0x203A]"

definition paneFix :: jsstring where
  "paneFix = linePromptFix @ [10] @ ascii ''  I fixed it '' @ [10] @ ascii ''97% context left''
             @ [10] @ lineBarePrompt"

text \<open>A prompt line with nothing after it but a bare prompt.\<close>

definition paneNoContent :: jsstring where
  "paneNoContent = linePromptFix @ [10] @ lineBarePrompt"

text \<open>The prompt line in bold: colour codes around it, as a log of the raw output has them.\<close>

definition paneAnsi :: jsstring where
  "paneAnsi = [27] @ ascii ''[1m'' @ linePromptFix @ [27] @ ascii ''[0m'' @ [10] @ ascii ''ok''"

text \<open>
  Two exchanges, each a prompt line, an answer and the elapsed-time line, and panes
  built from them: a finished exchange with the context counter below the prompt at
  98 and at 97 percent; one, two and three exchanges, the third being the first again.
\<close>

definition txtConvo1 :: jsstring where
  "txtConvo1 = [0x203A] @ ascii '' summarize repo'' @ [10] @ ascii ''here is the summary''
               @ [10] @ ascii ''Worked for 4s''"

definition txtConvo2 :: jsstring where
  "txtConvo2 = [0x203A] @ ascii '' list files'' @ [10] @ ascii ''a.txt'' @ [10] @ ascii ''Worked for 2s''"

definition paneDone98 :: jsstring where
  "paneDone98 = txtConvo1 @ [10] @ [0x203A] @ [10] @ ascii ''98% context left''"

definition paneDone97 :: jsstring where
  "paneDone97 = txtConvo1 @ [10] @ [0x203A] @ [10] @ ascii ''97% context left''"

definition paneT1 :: jsstring where
  "paneT1 = txtConvo1 @ [10] @ [0x203A]"

definition paneT2 :: jsstring where
  "paneT2 = txtConvo1 @ [10] @ txtConvo2 @ [10] @ [0x203A]"

definition paneT3 :: jsstring where
  "paneT3 = txtConvo1 @ [10] @ txtConvo2 @ [10] @ txtConvo1 @ [10] @ [0x203A]"

text \<open>
  A finished exchange, the bare prompt, the context counter as the footer, and eight
  empty rows below it.
\<close>

definition paneFooter :: "string \<Rightarrow> jsstring" where
  "paneFooter percent = txtConvo1 @ [10] @ [0x203A] @ [10] @ ascii percent @ ascii ''% context left''
                        @ replicate 8 10"

text \<open>
  A pane with a status line on top, a question, a bare prompt and eighteen empty rows.
\<close>

definition paneStatus :: "string \<Rightarrow> jsstring" where
  "paneStatus percent = ascii percent @ ascii ''% context left'' @ [10] @ ascii ''Do you want tea?''
                        @ [10] @ [0x203A] @ replicate 18 10"

text \<open>A pane where the task wrote the marker "Telegram done".\<close>

definition paneMarker :: jsstring where
  "paneMarker = [0x203A] @ ascii '' deploy'' @ [10] @ ascii ''all good'' @ [10]
                @ ascii ''Telegram done'' @ [10] @ [0x203A]"

text \<open>The same pane with the context counter below the prompt.\<close>

definition paneMarkerAt :: "string \<Rightarrow> jsstring" where
  "paneMarkerAt percent = paneMarker @ [10] @ ascii percent @ ascii ''% context left''"

section \<open>Properties of the injector\<close>

subsection \<open>Captures made by the confirmation loop\<close>

lemma confirmStep_ncap:
  "confirmStep e a w = Continue w1 \<or> confirmStep e a w = Break w1 \<or> confirmStep e a w = Stuck w1
   \<Longrightarrow> ncap w1 = Suc (ncap w)"
  by (auto simp: confirmStep_def getCaptureOutput_def sleep_def sendOptionThenEnter_def
      execSendKeys_def split: capture.splits if_splits option.splits prod.splits bool.splits)

lemma confirmLoop_ncap_mono: "ncap w \<le> ncap (snd (confirmLoop e a w))"
proof (induction e a w rule: confirmLoop.induct)
  case (1 e attempts w)
  show ?case
  proof (cases "attempts < maxAttempts")
    case False
    then show ?thesis by (simp add: confirmLoop.simps[of e attempts])
  next
    case True
    show ?thesis
    proof (cases "confirmStep e (Suc attempts) w")
      case (Continue w1)
      with True 1 have "ncap w1 \<le> ncap (snd (confirmLoop e (Suc attempts) w1))" by simp
      moreover have "ncap w1 = Suc (ncap w)" using Continue confirmStep_ncap by blast
      ultimately show ?thesis using True Continue by (simp add: confirmLoop.simps[of e attempts])
    next
      case (Break w1)
      then show ?thesis using True confirmStep_ncap[of e "Suc attempts" w w1]
        by (simp add: confirmLoop.simps[of e attempts])
    next
      case (Stuck w1)
      then show ?thesis using True confirmStep_ncap[of e "Suc attempts" w w1]
        by (simp add: confirmLoop.simps[of e attempts])
    qed
  qed
qed

lemma confirmLoop_first_capture: "ncap w < ncap (snd (confirmLoop e 0 w))"
proof (cases "confirmStep e (Suc 0) w")
  case (Continue w1)
  have "ncap w1 = Suc (ncap w)" using Continue confirmStep_ncap by blast
  moreover have "ncap w1 \<le> ncap (snd (confirmLoop e (Suc 0) w1))" by (rule confirmLoop_ncap_mono)
  ultimately show ?thesis using Continue by (simp add: maxAttempts_def confirmLoop.simps[of e 0])
next
  case (Break w1)
  then show ?thesis using confirmStep_ncap[of e "Suc 0" w w1]
    by (simp add: maxAttempts_def confirmLoop.simps[of e 0])
next
  case (Stuck w1)
  then show ?thesis using confirmStep_ncap[of e "Suc 0" w w1]
    by (simp add: maxAttempts_def confirmLoop.simps[of e 0])
qed

text \<open>
  Every call of \<open>handleConfirmations\<close> captures the pane at least once. A run of
  \<open>injectCommand\<close> that captures nothing has therefore not entered it.
\<close>

lemma handleConfirmations_captures: "ncap w < ncap (snd (handleConfirmations e w))"
  using confirmLoop_first_capture[of w e]
  by (auto simp: handleConfirmations_def getCaptureOutput_def split: prod.splits completion.splits)

subsection \<open>A failed keystroke of the injection\<close>

text \<open>
  Claim C9. \<open>injectCommand\<close> sends three keystrokes: clear the input (\<open>k = 0\<close>), the
  command text (\<open>k = 1\<close>) and Enter (\<open>k = 2\<close>). If the \<open>k\<close>-th is the first to fail,
  with message \<open>msg\<close>, the call returns the failure result carrying \<open>msg\<close>, no
  further keystroke is sent, and the pane is never captured: by
  \<open>handleConfirmations_captures\<close> the confirmation loop was not entered.
\<close>

theorem injectCommand_keystroke_failure:
  assumes "k < 3"
    and "sendError e (nsend w + k) = Some msg"
    and "\<forall>j<k. sendError e (nsend w + j) = None"
  shows "fst (injectCommand e command w) = Returns (InjectFailed msg)
       \<and> ncap (snd (injectCommand e command w)) = ncap w
       \<and> nsend (snd (injectCommand e command w)) = nsend w + k + 1"
proof -
  consider "k = 0" | "k = 1" | "k = 2" using assms(1) by linarith
  then show ?thesis
  proof cases
    case 1
    then show ?thesis using assms(2)
      by (simp add: injectCommand_def execSendKeys_def)
  next
    case 2
    then have "sendError e (nsend w) = None" using assms(3) by auto
    then show ?thesis using 2 assms(2)
      by (simp add: injectCommand_def execSendKeys_def sleep_def)
  next
    case 3
    then have "sendError e (nsend w) = None" "sendError e (Suc (nsend w)) = None"
      using assms(3) by (auto simp: numeral_2_eq_2 elim: allE[of _ 0] allE[of _ 1])
    then show ?thesis using 3 assms(2)
      by (simp add: injectCommand_def execSendKeys_def sleep_def numeral_2_eq_2)
  qed
qed

theorem injectCommand_keystroke_failure_witness:
  "sendError e_fail2 (nsend w_init) = None
   \<and> sendError e_fail2 (nsend w_init + 1) = Some msgNoServer
   \<and> fst (injectCommand e_fail2 (ascii ''ls'') w_init) = Returns (InjectFailed msgNoServer)
   \<and> ncap (snd (injectCommand e_fail2 (ascii ''ls'') w_init)) = ncap w_init
   \<and> nsend (snd (injectCommand e_fail2 (ascii ''ls'') w_init)) = nsend w_init + 1 + 1"
proof -
  have h1: "(1::nat) < 3" by simp
  have h2: "sendError e_fail2 (nsend w_init + 1) = Some msgNoServer"
    by (simp add: e_fail2_def w_init_def)
  have h3: "\<forall>j<1. sendError e_fail2 (nsend w_init + j) = None"
    by (simp add: e_fail2_def w_init_def)
  have h0: "sendError e_fail2 (nsend w_init) = None"
    by (simp add: e_fail2_def w_init_def)
  show ?thesis
    using h0 h2 injectCommand_keystroke_failure [OF h1 h2 h3, of "ascii ''ls''"] by blast
qed

subsection \<open>Termination of the confirmation loop\<close>

lemma confirmStep_not_stuck:
  assumes "\<forall>k. sendError e k = None"
  shows "confirmStep e a w \<noteq> Stuck w1"
  using assms
  by (auto simp: confirmStep_def getCaptureOutput_def sendOptionThenEnter_def execSendKeys_def
      split: capture.splits prod.splits option.splits bool.splits)

lemma confirmLoop_returns:
  "\<forall>k. sendError e k = None \<Longrightarrow>
     \<exists>n. fst (confirmLoop e a w) = Returns n \<and> n \<le> max a maxAttempts"
proof (induction e a w rule: confirmLoop.induct)
  case (1 e attempts w)
  show ?case
  proof (cases "attempts < maxAttempts")
    case False
    then show ?thesis by (simp add: confirmLoop.simps[of e attempts])
  next
    case True
    show ?thesis
    proof (cases "confirmStep e (Suc attempts) w")
      case (Continue w1)
      with True 1 obtain n where "fst (confirmLoop e (Suc attempts) w1) = Returns n"
        "n \<le> max (Suc attempts) maxAttempts" by blast
      then show ?thesis using True Continue by (auto simp: confirmLoop.simps[of e attempts])
    next
      case (Break w1)
      then show ?thesis using True by (auto simp: confirmLoop.simps[of e attempts])
    next
      case (Stuck w1)
      then show ?thesis using 1(2) confirmStep_not_stuck by blast
    qed
  qed
qed

text \<open>
  When every keystroke is delivered the loop returns after at most \<open>maxAttempts = 8\<close>
  passes, whatever the pane shows, and without an error value.
\<close>

lemma handleConfirmations_returns:
  assumes "\<forall>k. sendError e k = None"
  shows "\<exists>n. fst (handleConfirmations e w) = Returns n \<and> n \<le> maxAttempts"
proof -
  obtain n where "fst (confirmLoop e 0 w) = Returns n" "n \<le> maxAttempts"
    using confirmLoop_returns[OF assms, of 0 w] by auto
  then show ?thesis
    by (auto simp: handleConfirmations_def split: prod.splits completion.splits)
qed

lemma isMultiOption_paneDialog: "isMultiOption paneDialog"
  by (simp add: isMultiOption_def paneDialog_def txtProceed_def txtOneYes_def txtTwoYes_def ascii_def)

lemma confirmStep_dialog_stuck:
  assumes "paneCapture e (ncap w) = CaptureOk paneDialog" and "sendError e (nsend w) = Some msg"
  shows "confirmStep e a w
     = Stuck (w\<lparr>nsend := Suc (nsend w), ncap := Suc (ncap w),
                acts := acts w @ [Sleep 1500, CapturePane, SendKeys keyTwo]\<rparr>)"
  using assms
  by (simp add: confirmStep_def getCaptureOutput_def sleep_def isMultiOption_paneDialog
      sendOptionThenEnter_def execSendKeys_def)

lemma handleConfirmations_dialog_stuck:
  assumes "paneCapture e (ncap w) = CaptureOk paneDialog" and "sendError e (nsend w) = Some msg"
  shows "handleConfirmations e w
     = (Hangs, w\<lparr>nsend := Suc (nsend w), ncap := Suc (ncap w),
                  acts := acts w @ [Sleep 1500, CapturePane, SendKeys keyTwo]\<rparr>)"
  using confirmStep_dialog_stuck[OF assms, of "Suc 0"]
  by (simp add: handleConfirmations_def maxAttempts_def confirmLoop.simps[of e 0])

text \<open>
  Claim C5. The loop does not always terminate. When the pane shows the dialog and the
  keystroke \<open>'2'\<close> fails, the source logs "Failed to send option 2" and leaves the
  promise it awaits unresolved (the branches for \<open>'1'\<close> and \<open>'y'\<close> do the same; the
  branch for a lone Enter resolves on both outcomes). \<open>handleConfirmations\<close> then never
  returns, after one attempt, and the \<open>injectCommand\<close> that called it never resolves.
\<close>

theorem handleConfirmations_hangs:
  "handleConfirmations e_dialog_sendfail w_init
     = (Hangs, \<lparr>nsend = 1, ncap = 1, acts = [Sleep 1500, CapturePane, SendKeys keyTwo]\<rparr>)
   \<and> fst (injectCommand e_inject_hang (ascii ''ls'') w_init) = Hangs"
proof
  show "handleConfirmations e_dialog_sendfail w_init
     = (Hangs, \<lparr>nsend = 1, ncap = 1, acts = [Sleep 1500, CapturePane, SendKeys keyTwo]\<rparr>)"
    using handleConfirmations_dialog_stuck[of e_dialog_sendfail w_init msgNoServer]
    by (simp add: e_dialog_sendfail_def w_init_def)
next
  let ?w4 = "\<lparr>nsend = Suc (Suc (Suc 0)), ncap = Suc 0,
      acts = [SendKeys keyClear, Sleep 200, SendKeys (quoted (escapeQuotes (ascii ''ls''))),
              Sleep 200, SendKeys keyCm, Sleep 1000, CapturePane]\<rparr>"
  have sends: "sendError e_inject_hang 0 = None" "sendError e_inject_hang (Suc 0) = None"
    "sendError e_inject_hang (Suc (Suc 0)) = None"
    by (simp_all add: e_inject_hang_def)
  have "paneCapture e_inject_hang (ncap ?w4) = CaptureOk paneDialog"
    "sendError e_inject_hang (nsend ?w4) = Some msgNoServer"
    by (simp_all add: e_inject_hang_def)
  then have hc: "fst (handleConfirmations e_inject_hang ?w4) = Hangs"
    using handleConfirmations_dialog_stuck[of e_inject_hang ?w4 msgNoServer] by simp
  have "injectCommand e_inject_hang (ascii ''ls'') w_init
      = (case handleConfirmations e_inject_hang ?w4 of
           (Hangs, w5) \<Rightarrow> (Hangs, w5)
         | (Returns attempts, w5) \<Rightarrow> (Returns InjectOk, w5))"
    by (simp add: injectCommand_def execSendKeys_def getCaptureOutput_def sleep_def w_init_def
        sends)
  then show "fst (injectCommand e_inject_hang (ascii ''ls'') w_init) = Hangs"
    using hc by (simp split: prod.splits completion.splits)
qed

subsection \<open>The multi-option dialog and the idle prompt\<close>

lemma includes_paneDialog:
  "includes_js paneDialog txtProceed" "includes_js paneDialog txtTwoYes"
  by (simp_all add: paneDialog_def txtProceed_def txtOneYes_def txtTwoYes_def ascii_def)

lemma paneIdle_bare:
  "isIdlePrompt paneIdle" "\<not> isSingleOption paneIdle" "\<not> isYesNo paneIdle"
  "\<not> isPressEnter paneIdle" "\<not> isExecuting paneIdle"
  by (simp_all add: paneIdle_def isIdlePrompt_def isSingleOption_def isYesNo_def isPressEnter_def
      isExecuting_def txtProceed_def txtOneYes_def txtBoxPrompt_def txtPrompt_def txtYN1_def
      txtYN2_def txtYN3_def txtSingleA_def txtSingleB_def txtEnter1_def txtEnter2_def txtEnter3_def
      txtBusy1_def txtBusy2_def txtBusy3_def txtBusy4_def ascii_def)

text \<open>
  What the loop does by design. In a pass whose capture shows the dialog with the
  option "2. Yes, and don't ask again", and in which the keystroke \<open>'2'\<close> is delivered,
  the pass sends \<open>'2'\<close>, then \<open>'Enter'\<close>, nothing else, and the loop goes on. In a pass
  whose capture holds the text \<open>"> "\<close> (or the boxed-prompt literal as the file stores
  it) and none of the texts of the earlier branches, the loop is left.
\<close>

lemma confirmStep_multi_option:
  assumes "paneCapture e (ncap w) = CaptureOk dialog" and "includes_js dialog txtProceed"
    and "includes_js dialog txtTwoYes" and "sendError e (nsend w) = None"
  shows "confirmStep e attempts w
        = Continue (w\<lparr>nsend := nsend w + 2, ncap := Suc (ncap w),
              acts := acts w @ [Sleep 1500, CapturePane, SendKeys keyTwo, Sleep 300,
                                SendKeys keyEnter, Sleep 2000]\<rparr>)"
proof -
  have "isMultiOption dialog" using assms(2,3) by (simp add: isMultiOption_def)
  then show ?thesis using assms(1,4)
    by (simp add: confirmStep_def getCaptureOutput_def sleep_def sendOptionThenEnter_def
        execSendKeys_def)
qed

lemma confirmStep_idle_prompt:
  assumes "paneCapture e (ncap w) = CaptureOk idle" and "isIdlePrompt idle"
    and "\<not> isSingleOption idle" and "\<not> isYesNo idle" and "\<not> isPressEnter idle"
    and "\<not> isExecuting idle"
  shows "confirmStep e attempts w
        = Break (w\<lparr>ncap := Suc (ncap w), acts := acts w @ [Sleep 1500, CapturePane]\<rparr>)"
proof -
  have "\<not> isMultiOption idle" using assms(2) by (simp add: isMultiOption_def isIdlePrompt_def)
  then show ?thesis using assms
    by (simp add: confirmStep_def getCaptureOutput_def sleep_def)
qed

text \<open>
  When the keystroke \<open>'2'\<close> fails, no Enter follows: the source sends Enter only from
  the success branch of \<open>'2'\<close>, and the call then hangs (claim C5).
\<close>

lemma multi_option_enter_not_sent:
  "paneCapture e_dialog_sendfail 0 = CaptureOk paneDialog
   \<and> includes_js paneDialog txtProceed \<and> includes_js paneDialog txtTwoYes
   \<and> SendKeys keyEnter \<notin> set (acts (snd (handleConfirmations e_dialog_sendfail w_init)))"
proof -
  have "paneCapture e_dialog_sendfail 0 = CaptureOk paneDialog"
    by (simp add: e_dialog_sendfail_def)
  moreover have "handleConfirmations e_dialog_sendfail w_init
     = (Hangs, \<lparr>nsend = 1, ncap = 1, acts = [Sleep 1500, CapturePane, SendKeys keyTwo]\<rparr>)"
    using handleConfirmations_dialog_stuck[of e_dialog_sendfail w_init msgNoServer]
    by (simp add: e_dialog_sendfail_def w_init_def)
  then have "SendKeys keyEnter \<notin> set (acts (snd (handleConfirmations e_dialog_sendfail w_init)))"
    by (simp add: keyEnter_def keyTwo_def quoted_def ascii_def)
  ultimately show ?thesis using includes_paneDialog by simp
qed

text \<open>
  The idle pane of Codex: its last line is a bare prompt for the monitor
  (\<open>_isPromptOnlyLine\<close>), it holds none of the texts of a dialog, and the injector does
  not take it for an input prompt. A pass that captures it waits and goes on.
\<close>

lemma paneCodexIdle_facts:
  "isPromptOnlyLine (last (splitLines paneCodexIdle))"
  "\<not> isMultiOption paneCodexIdle" "\<not> isSingleOption paneCodexIdle" "\<not> isYesNo paneCodexIdle"
  "\<not> isPressEnter paneCodexIdle" "\<not> isExecuting paneCodexIdle" "\<not> isIdlePrompt paneCodexIdle"
  "\<not> isErrorOutput paneCodexIdle"
  by code_simp+

lemma confirmStep_codex_prompt:
  assumes "paneCapture e (ncap w) = CaptureOk paneCodexIdle"
  shows "confirmStep e a w
     = Continue (if a < maxAttempts
                 then w\<lparr>ncap := Suc (ncap w), acts := acts w @ [Sleep 1500, CapturePane, Sleep 2000]\<rparr>
                 else w\<lparr>ncap := Suc (ncap w), acts := acts w @ [Sleep 1500, CapturePane]\<rparr>)"
  using assms
  by (simp add: confirmStep_def getCaptureOutput_def sleep_def paneCodexIdle_facts)

text \<open>
  Claim C4. The code does not do what the claim says once the dialog is answered. The
  first capture shows "Do you want to proceed?" with the option "2. Yes, and don't ask
  again"; the loop sends \<open>'2'\<close> and \<open>'Enter'\<close>, as claimed. Every later capture shows
  the bare idle prompt of Codex, U+203A, and no dialog text. The loop is not left
  there: the test for an input prompt looks for \<open>"> "\<close> and for a boxed-prompt literal
  whose border glyph is stored in the file as three characters of another encoding,
  and finds neither. The loop runs through all eight attempts, capturing eight times
  and waiting in between, and returns only at the attempt ceiling. With the prompt
  \<open>"> "\<close> on the second capture the same run is left at the second attempt.
\<close>

theorem bare_prompt_not_recognised:
  "isPromptOnlyLine (last (splitLines paneCodexIdle))
   \<and> \<not> isMultiOption paneCodexIdle \<and> \<not> isSingleOption paneCodexIdle \<and> \<not> isYesNo paneCodexIdle
   \<and> \<not> isPressEnter paneCodexIdle \<and> \<not> isExecuting paneCodexIdle
   \<and> \<not> isIdlePrompt paneCodexIdle
   \<and> handleConfirmations e_dialog_then_codex w_init
       = (Returns 8,
          \<lparr>nsend = 2, ncap = 9,
           acts = [Sleep 1500, CapturePane, SendKeys keyTwo, Sleep 300, SendKeys keyEnter, Sleep 2000]
                  @ concat (replicate 6 [Sleep 1500, CapturePane, Sleep 2000])
                  @ [Sleep 1500, CapturePane, CapturePane]\<rparr>)
   \<and> handleConfirmations e_dialog_then_idle w_init
       = (Returns 2,
          \<lparr>nsend = 2, ncap = 3,
           acts = [Sleep 1500, CapturePane, SendKeys keyTwo, Sleep 300, SendKeys keyEnter, Sleep 2000,
                   Sleep 1500, CapturePane, CapturePane]\<rparr>)"
proof -
  have d: "\<And>e a w. paneCapture e (ncap w) = CaptureOk paneDialog \<Longrightarrow> sendError e (nsend w) = None
      \<Longrightarrow> confirmStep e a w
        = Continue (w\<lparr>nsend := nsend w + 2, ncap := Suc (ncap w),
              acts := acts w @ [Sleep 1500, CapturePane, SendKeys keyTwo, Sleep 300,
                                SendKeys keyEnter, Sleep 2000]\<rparr>)"
    using includes_paneDialog by (simp add: confirmStep_multi_option)
  have i: "\<And>e a w. paneCapture e (ncap w) = CaptureOk paneIdle
      \<Longrightarrow> confirmStep e a w
        = Break (w\<lparr>ncap := Suc (ncap w), acts := acts w @ [Sleep 1500, CapturePane]\<rparr>)"
    using paneIdle_bare by (simp add: confirmStep_idle_prompt)
  have c1: "handleConfirmations e_dialog_then_codex w_init
       = (Returns 8,
          \<lparr>nsend = 2, ncap = 9,
           acts = [Sleep 1500, CapturePane, SendKeys keyTwo, Sleep 300, SendKeys keyEnter, Sleep 2000]
                  @ concat (replicate 6 [Sleep 1500, CapturePane, Sleep 2000])
                  @ [Sleep 1500, CapturePane, CapturePane]\<rparr>)"
    by (simp add: handleConfirmations_def confirmLoop.simps d confirmStep_codex_prompt
        e_dialog_then_codex_def w_init_def maxAttempts_def getCaptureOutput_def
        numeral_eq_Suc)
  have c2: "handleConfirmations e_dialog_then_idle w_init
       = (Returns 2,
          \<lparr>nsend = 2, ncap = 3,
           acts = [Sleep 1500, CapturePane, SendKeys keyTwo, Sleep 300, SendKeys keyEnter, Sleep 2000,
                   Sleep 1500, CapturePane, CapturePane]\<rparr>)"
    by (simp add: handleConfirmations_def confirmLoop.simps d i
        e_dialog_then_idle_def w_init_def maxAttempts_def getCaptureOutput_def)
  show ?thesis using paneCodexIdle_facts c1 c2 by simp
qed

section \<open>Properties of the monitor: starting, stopping, polling\<close>

subsection \<open>The poll cycle leaves the control fields alone\<close>

lemma control_detectTelegramDone:
  "control (snd (detectTelegramDoneCompletion p m)) = control m"
  by (simp add: detectTelegramDoneCompletion_def control_def Let_def split: option.splits)

lemma control_detectCompletionFromPane:
  "control (snd (detectCompletionFromPane p m)) = control m"
  by (simp add: detectCompletionFromPane_def control_def Let_def)

lemma control_analyzeNewContent:
  "control (fst (analyzeNewContent newLines cur recap m)) = control m"
proof -
  let ?p = "if cur \<noteq> [] then cur else lastPaneContent m"
  obtain r1 m1 where d1: "detectTelegramDoneCompletion ?p m = (r1, m1)" by fastforce
  obtain r2 m2 where d2: "detectCompletionFromPane ?p m1 = (r2, m2)" by fastforce
  have c1: "control m1 = control m" using control_detectTelegramDone[of ?p m] d1 by simp
  have c2: "control m2 = control m1" using control_detectCompletionFromPane[of ?p m1] d2 by simp
  show ?thesis
    using d1 d2 c1 c2
    by (cases r1; cases r2) (simp_all add: analyzeNewContent_def Let_def)
qed

lemma control_update_data [simp]:
  "control (m\<lparr>outputBuffer := b\<rparr>) = control m"
  "control (m\<lparr>lastCompletionTail := t\<rparr>) = control m"
  "control (m\<lparr>lastPaneContent := c\<rparr>) = control m"
  by (simp_all add: control_def)

lemma control_checkForChanges:
  "control (fst (checkForChanges execResult recapture m)) = control m"
proof -
  let ?cur = "captureCurrentContent execResult"
  define step1 where "step1 =
     (if ?cur \<noteq> lastPaneContent m then
               let newLines = getNewLines (lastPaneContent m) ?cur in
               if newLines \<noteq> [] then
                 let pushed = outputBuffer m @ newLines;
                     buffer = (if length pushed > maxBufferSize
                               then sliceLast maxBufferSize pushed else pushed)
                 in analyzeNewContent newLines ?cur recapture
                      (m\<lparr>outputBuffer := buffer\<rparr>)
               else
                 let tailLines = filter nonBlank (sliceLast 20 (splitLines ?cur));
                     tailText = joinLines tailLines;
                     lastTailLine = (if tailLines = [] then [] else last tailLines);
                     hasPromptReturn = isPromptOnlyLine lastTailLine
                 in
                 if hasPromptReturn \<and> tailText \<noteq> [] \<and> tailText \<noteq> lastCompletionTail m then
                   analyzeNewContent (sliceLast 5 tailLines) ?cur recapture
                     (m\<lparr>lastCompletionTail := tailText\<rparr>)
                 else (m, [])
             else (m, []))"
  have s1: "control (fst step1) = control m"
    by (simp add: step1_def Let_def control_analyzeNewContent)
  obtain m1 ev1 where e1: "step1 = (m1, ev1)" by fastforce
  obtain r m' where d: "detectTelegramDoneCompletion ?cur m1 = (r, m')" by fastforce
  have c': "control m' = control m1" using control_detectTelegramDone[of ?cur m1] d by simp
  have "checkForChanges execResult recapture m =
     (let (m2, events2) =
            (if ?cur \<noteq> [] \<and> ?cur \<noteq> lastPaneContent m then
               (case detectTelegramDoneCompletion ?cur m1 of
                  (Some conv, m') \<Rightarrow> (m', [handleTaskCompletion [] (Some conv) recapture m'])
                | (None, m') \<Rightarrow> (m', []))
             else (m1, []))
      in (if ?cur \<noteq> lastPaneContent m then m2\<lparr>lastPaneContent := ?cur\<rparr> else m2,
          ev1 @ events2))"
    unfolding checkForChanges_def Let_def using e1 unfolding step1_def Let_def by simp
  then show ?thesis
    using s1 e1 d c' by (cases r) (auto simp: Let_def)
qed

lemma timerInv_control: "control m' = control m \<Longrightarrow> timerInv m' = timerInv m"
  by (auto simp: control_def timerInv_def split: option.splits)

lemma timerInv_applyOp: "timerInv m \<Longrightarrow> timerInv (applyOp operation m)"
proof (cases operation)
  case (Start listing execResult)
  assume "timerInv m"
  then show ?thesis using Start
    by (auto simp: start_def startRealTimeMonitoring_def timerInv_def Let_def split: option.splits if_splits)
next
  case Stop
  assume "timerInv m"
  then show ?thesis using Stop
    by (auto simp: stop_def timerInv_def split: option.splits if_splits)
next
  case (Tick execResult recapture)
  assume i: "timerInv m"
  have "control (applyOp operation m) = control m"
    using Tick control_checkForChanges[of execResult recapture m] by (simp add: tick_def)
  then show ?thesis using i timerInv_control by blast
qed

lemma timerInv_runOps: "timerInv m \<Longrightarrow> timerInv (runOps ops m)"
  unfolding runOps_def
  by (induction ops arbitrary: m) (simp_all add: timerInv_applyOp)

lemma timerInv_newMonitor: "timerInv (newMonitor name envSession)"
  by (simp add: timerInv_def newMonitor_def)

lemma timerInv_le: "timerInv m \<Longrightarrow> length (activeTimers m) \<le> 1"
  by (auto simp: timerInv_def split: if_splits option.splits)

lemma newMonitor_codex:
  "sessionName (newMonitor (Some txtCodex) None) = txtCodex"
  "\<not> isMonitoring (newMonitor (Some txtCodex) None)"
  "timerSeq (newMonitor (Some txtCodex) None) = 0"
  "activeTimers (newMonitor (Some txtCodex) None) = []"
  by (simp_all add: newMonitor_def orElse_def txtCodex_def ascii_def)

lemma sessionExists_codex:
  "sessionExists (Some listingCodex) (newMonitor (Some txtCodex) None)"
  "\<not> sessionExists (Some listingOther) (newMonitor (Some txtCodex) None)"
  "\<not> sessionExists None (newMonitor (Some txtCodex) None)"
  unfolding sessionExists_def newMonitor_codex(1)
  by (simp_all add: listingCodex_def listingOther_def txtCodex_def trim_def isSpace_def ascii_def)

lemma mRunning_fields:
  "isMonitoring mRunning" "sessionName mRunning = txtCodex"
  using sessionExists_codex(1) newMonitor_codex
  by (simp_all add: mRunning_def start_def startRealTimeMonitoring_def)

subsection \<open>start on a running monitor\<close>

text \<open>
  Claim C10. On a running monitor \<open>start\<close> returns at once: whatever the session
  listing and the pane would answer, the result is no error and the very same state
  (buffer, dedup keys, timer handle and schedule unchanged). And over every sequence
  of \<open>start\<close>, \<open>stop\<close> and timer ticks from a new instance, at most one interval timer
  is scheduled.
\<close>

theorem start_while_running_noop:
  "(isMonitoring m \<longrightarrow> start listing execResult m = (None, m))
   \<and> length (activeTimers (runOps ops (newMonitor name envSession))) \<le> 1"
  using timerInv_le[OF timerInv_runOps[OF timerInv_newMonitor]]
  by (simp add: start_def)

theorem start_while_running_noop_witness:
  "isMonitoring mRunning
   \<and> start (Some listingOther) None mRunning = (None, mRunning)
   \<and> length (activeTimers (runOps [Start (Some listingCodex) (Some []),
                                     Start (Some listingCodex) (Some []), Stop,
                                     Start (Some listingCodex) None]
                             (newMonitor (Some txtCodex) None))) \<le> 1"
  using mRunning_fields(1) start_while_running_noop [of mRunning "Some listingOther" None
      "[Start (Some listingCodex) (Some []), Start (Some listingCodex) (Some []), Stop,
        Start (Some listingCodex) None]" "Some txtCodex" None]
  by simp

subsection \<open>start and the session check\<close>

lemma sessionExists_iff:
  "sessionExists listing m
     \<longleftrightarrow> (\<exists>out. listing = Some out \<and> sessionName m \<in> set (splitLines (trim out)))"
  by (cases listing) (simp_all add: sessionExists_def)

text \<open>
  Claim C7, as stated, fails on a running monitor: the session is not in the listing
  and \<open>start\<close> returns without an error, because it returns before the check.
\<close>

theorem start_running_session_gone:
  "isMonitoring mRunning
   \<and> \<not> sessionExists (Some listingOther) mRunning
   \<and> fst (start (Some listingOther) (Some []) mRunning) = None"
proof -
  have "\<not> sessionExists (Some listingOther) mRunning"
    using mRunning_fields(2) by (simp add: sessionExists_def listingOther_def txtCodex_def
      trim_def isSpace_def ascii_def)
  then show ?thesis using mRunning_fields(1) by (simp add: start_def)
qed

text \<open>
  Claim C7, amended: on a monitor that is not running. \<open>start\<close> throws the
  session-not-found error exactly when the session name is not a line of the trimmed
  output of \<open>tmux list-sessions\<close> (or the listing itself fails); then the state is
  unchanged, so the monitor is not running and no timer is scheduled. Otherwise it
  returns normally, the monitor is running and one new timer is scheduled and recorded
  in \<open>monitorInterval\<close>.
\<close>

theorem start_session_check:
  assumes "\<not> isMonitoring m"
  shows "(fst (start listing execResult m) = Some (SessionNotFound (sessionName m))
            \<longleftrightarrow> \<not> sessionExists listing m)
       \<and> (sessionExists listing m
            \<longleftrightarrow> (\<exists>out. listing = Some out \<and> sessionName m \<in> set (splitLines (trim out))))
       \<and> (\<not> sessionExists listing m \<longrightarrow> snd (start listing execResult m) = m)
       \<and> (sessionExists listing m \<longrightarrow>
            fst (start listing execResult m) = None
            \<and> isMonitoring (snd (start listing execResult m))
            \<and> monitorInterval (snd (start listing execResult m)) = Some (timerSeq m)
            \<and> activeTimers (snd (start listing execResult m)) = activeTimers m @ [timerSeq m])"
  using assms sessionExists_iff[of listing m]
  by (simp add: start_def startRealTimeMonitoring_def)

theorem start_session_check_witness:
  "fst (start (Some listingOther) (Some []) (newMonitor (Some txtCodex) None))
     = Some (SessionNotFound txtCodex)
   \<and> snd (start (Some listingOther) (Some []) (newMonitor (Some txtCodex) None))
       = newMonitor (Some txtCodex) None
   \<and> fst (start (Some listingCodex) (Some []) (newMonitor (Some txtCodex) None)) = None
   \<and> isMonitoring (snd (start (Some listingCodex) (Some []) (newMonitor (Some txtCodex) None)))
   \<and> activeTimers (snd (start (Some listingCodex) (Some []) (newMonitor (Some txtCodex) None))) = [0]"
proof -
  have n: "\<not> isMonitoring (newMonitor (Some txtCodex) None)" by (rule newMonitor_codex(2))
  have s: "sessionName (newMonitor (Some txtCodex) None) = txtCodex"
    "timerSeq (newMonitor (Some txtCodex) None) = 0"
    "activeTimers (newMonitor (Some txtCodex) None) = []" by (simp_all add: newMonitor_codex)
  show ?thesis
    using start_session_check [OF n, of "Some listingOther" "Some []"]
      start_session_check [OF n, of "Some listingCodex" "Some []"]
      sessionExists_codex s
    by simp
qed

subsection \<open>A failed capture\<close>

lemma splitLines_not_Nil: "splitLines s \<noteq> []"
  by (induction s) (auto split: list.splits)

lemma nonBlank_Nil: "\<not> nonBlank []"
  by (simp add: nonBlank_def trim_def)

lemma getNewLines_empty: "getNewLines oldContent [] = []"
proof -
  have n: "length (splitLines oldContent) \<ge> 1"
    using splitLines_not_Nil[of oldContent] by (cases "splitLines oldContent") simp_all
  show ?thesis
  proof (cases "length (splitLines oldContent) = 1")
    case True
    then show ?thesis
      by (auto simp: getNewLines_def Let_def nonBlank_Nil upt_conv_Cons)
  next
    case False
    then have "1 < length (splitLines oldContent)" using n by linarith
    then show ?thesis by (auto simp: getNewLines_def Let_def)
  qed
qed






section \<open>Properties of the conversation extractors\<close>

subsection \<open>The loops\<close>

lemma scanDown_Some:
  "scanDown P xs n = Some i \<Longrightarrow> i < n \<and> P (xs ! i) \<and> (\<forall>j. i < j \<and> j < n \<longrightarrow> \<not> P (xs ! j))"
proof (induction n)
  case 0
  then show ?case by simp
next
  case (Suc n)
  show ?case
  proof (cases "P (xs ! n)")
    case True
    then have "i = n" using Suc.prems by simp
    then show ?thesis using True by auto
  next
    case False
    then have "scanDown P xs n = Some i" using Suc.prems by simp
    then have "i < n \<and> P (xs ! i) \<and> (\<forall>j. i < j \<and> j < n \<longrightarrow> \<not> P (xs ! j))" by (rule Suc.IH)
    then show ?thesis using False by (auto simp: less_Suc_eq)
  qed
qed

lemma scanDown_None: "scanDown P xs n = None \<Longrightarrow> \<forall>j<n. \<not> P (xs ! j)"
  by (induction n) (auto simp: less_Suc_eq split: if_splits)

lemma scanDown_eq:
  "k < n \<Longrightarrow> P (xs ! k) \<Longrightarrow> \<forall>j. k < j \<and> j < n \<longrightarrow> \<not> P (xs ! j) \<Longrightarrow> scanDown P xs n = Some k"
proof (induction n)
  case 0
  then show ?case by simp
next
  case (Suc n)
  show ?case
  proof (cases "k = n")
    case True
    then show ?thesis using Suc.prems by simp
  next
    case False
    then have "k < n" using Suc.prems(1) by simp
    moreover have "\<not> P (xs ! n)" using Suc.prems(3) \<open>k < n\<close> by simp
    ultimately show ?thesis using Suc by simp
  qed
qed

lemma isPromptLine_Nil: "\<not> isPromptLine []"
  by code_simp

lemma collectResponse_takeWhile:
  "collectResponse ls
     = filter isContentLine (map trim (takeWhile (\<lambda>l. \<not> isPromptLine (trim l)) ls))"
  by (induction ls) (auto simp: Let_def isContentLine_def isPromptLine_Nil)

lemma collectResponse_no_prompt:
  assumes "\<forall>l \<in> set ls. \<not> isPromptLine (trim l)"
  shows "collectResponse ls = filter isContentLine (map trim ls)"
proof -
  have tw: "takeWhile (\<lambda>l. \<not> isPromptLine (trim l)) ls = ls"
    using assms by (simp add: takeWhile_eq_all_conv)
  show ?thesis unfolding collectResponse_takeWhile tw by (rule refl)
qed

lemma after_last_prompt:
  assumes "scanDown P lines (length lines) = Some i"
  shows "\<forall>l \<in> set (drop (Suc i) lines). \<not> P l"
proof
  fix l assume "l \<in> set (drop (Suc i) lines)"
  then obtain k where k: "k < length (drop (Suc i) lines)" "drop (Suc i) lines ! k = l"
    by (auto simp: in_set_conv_nth)
  then have "Suc i + k < length lines" by simp
  moreover have "l = lines ! (Suc i + k)" using k by simp
  ultimately show "\<not> P l" using scanDown_Some[OF assms] by simp
qed

subsection \<open>trim, split and join\<close>

lemma trim_ends:
  assumes "trim s \<noteq> []"
  shows "\<not> isSpace (hd (trim s)) \<and> \<not> isSpace (last (trim s))"
proof -
  let ?a = "dropWhile isSpace s"
  let ?b = "dropWhile isSpace (rev ?a)"
  have b: "?b \<noteq> []" using assms by (simp add: trim_def)
  then have l: "\<not> isSpace (hd ?b)" using hd_dropWhile by blast
  have a: "?a \<noteq> []"
  proof
    assume "?a = []"
    then have "?b = []" by (simp only: rev.simps dropWhile.simps)
    then show False using b by simp
  qed
  then have h: "\<not> isSpace (hd ?a)" using hd_dropWhile by blast
  have "last (trim s) = hd ?b" using b by (simp add: trim_def last_rev)
  moreover have "hd (trim s) = hd ?a"
  proof -
    obtain ys where ys: "rev ?a = takeWhile isSpace (rev ?a) @ ?b" by simp
    have "?a = rev ?b @ rev (takeWhile isSpace (rev ?a))"
      by (metis rev_append rev_rev_ident takeWhile_dropWhile_id)
    then have "hd ?a = hd (rev ?b)" using b by (metis hd_append2 rev_is_Nil_conv)
    then show ?thesis by (simp add: trim_def)
  qed
  ultimately show ?thesis using l h by simp
qed

lemma trim_id:
  assumes "s \<noteq> []" "\<not> isSpace (hd s)" "\<not> isSpace (last s)"
  shows "trim s = s"
proof -
  have "dropWhile isSpace s = s" using assms(1,2) by (cases s) simp_all
  moreover have "dropWhile isSpace (rev s) = rev s"
    using assms(1,3) by (cases "rev s") (simp_all add: last_rev[symmetric] hd_rev)
  ultimately show ?thesis by (simp add: trim_def)
qed

lemma joinLines_Cons: "joinLines (l # ls) = (if ls = [] then l else l @ [10] @ joinLines ls)"
  by (cases ls) simp_all

lemma joinLines_hd_last:
  assumes "ts \<noteq> []" "\<forall>t \<in> set ts. t \<noteq> []"
  shows "joinLines ts \<noteq> [] \<and> hd (joinLines ts) = hd (hd ts) \<and> last (joinLines ts) = last (last ts)"
  using assms
proof (induction ts)
  case Nil
  then show ?case by simp
next
  case (Cons t ts)
  show ?case
  proof (cases "ts = []")
    case True
    then show ?thesis using Cons.prems by simp
  next
    case False
    then have "joinLines ts \<noteq> [] \<and> last (joinLines ts) = last (last ts)"
      using Cons by simp
    then show ?thesis using False Cons.prems by (simp add: joinLines_Cons)
  qed
qed

lemma isContentLine_trim_ends:
  assumes "t \<in> set (filter isContentLine (map trim ls))"
  shows "t \<noteq> [] \<and> \<not> isSpace (hd t) \<and> \<not> isSpace (last t)"
proof -
  obtain l where "t = trim l" "t \<noteq> []" using assms by (auto simp: isContentLine_def)
  then show ?thesis using trim_ends[of l] by simp
qed

lemma trim_joinLines_content:
  assumes "ts = filter isContentLine (map trim ls)"
  shows "trim (joinLines ts) = joinLines ts \<and> (joinLines ts = [] \<longleftrightarrow> ts = [])"
proof (cases "ts = []")
  case True
  then show ?thesis by (simp add: trim_def)
next
  case False
  have e: "\<forall>t \<in> set ts. t \<noteq> [] \<and> \<not> isSpace (hd t) \<and> \<not> isSpace (last t)"
    using assms isContentLine_trim_ends by blast
  then have j: "joinLines ts \<noteq> [] \<and> hd (joinLines ts) = hd (hd ts) \<and> last (joinLines ts) = last (last ts)"
    using joinLines_hd_last[OF False] by blast
  have "hd ts \<in> set ts" "last ts \<in> set ts" using False by simp_all
  then have "\<not> isSpace (hd (joinLines ts))" "\<not> isSpace (last (joinLines ts))"
    using e j by auto
  then show ?thesis using j False trim_id by blast
qed

lemma trim_not_Nil:
  assumes "x \<noteq> []" "\<not> isSpace (hd x)"
  shows "trim x \<noteq> []"
proof -
  have a: "dropWhile isSpace x = x" using assms by (cases x) simp_all
  have "hd x \<in> set (rev x)" using assms(1) by simp
  then have "dropWhile isSpace (rev x) \<noteq> []" using assms(2) by (auto simp: dropWhile_eq_Nil_conv)
  then show ?thesis by (simp add: trim_def a)
qed

lemma set_trim: "set (trim s) \<subseteq> set s"
  by (auto simp: trim_def dest!: set_dropWhileD)

lemma splitLines_no_newline: "10 \<notin> set l \<Longrightarrow> splitLines l = [l]"
  by (induction l) auto

lemma splitLines_append_newline:
  "10 \<notin> set l \<Longrightarrow> splitLines (l @ 10 # rest) = l # splitLines rest"
  by (induction l) auto

lemma splitLines_joinLines:
  "ls \<noteq> [] \<Longrightarrow> \<forall>l \<in> set ls. 10 \<notin> set l \<Longrightarrow> splitLines (joinLines ls) = ls"
proof (induction ls)
  case Nil
  then show ?case by simp
next
  case (Cons l ls)
  show ?case
  proof (cases "ls = []")
    case True
    then show ?thesis using Cons.prems splitLines_no_newline by simp
  next
    case False
    then have "splitLines (joinLines ls) = ls" using Cons by simp
    then show ?thesis using False Cons.prems
      by (simp add: joinLines_Cons splitLines_append_newline)
  qed
qed

lemma joinLines_not_Nil: "l \<in> set ls \<Longrightarrow> l \<noteq> [] \<Longrightarrow> joinLines ls \<noteq> []"
  by (induction ls rule: joinLines.induct) auto

subsection \<open>The response after the last prompt line\<close>

lemma content_fallback_empty:
  assumes "filter isContentLine (map trim (drop a lines)) = []"
    and "\<forall>l \<in> set (drop a lines). \<not> isPromptLine (trim l)"
  shows "filter (\<lambda>line. line \<noteq> [] \<and> \<not> isUiLine line \<and> \<not> isPromptOnlyLine line)
           (map trim (drop (max a b) lines)) = []"
proof -
  have "set (drop (max a b) lines) \<subseteq> set (drop a lines)"
    by (rule set_drop_subset_set_drop) simp
  moreover have "\<forall>l \<in> set (drop a lines). \<not> isContentLine (trim l)"
    using assms(1) by (auto simp: filter_empty_conv)
  ultimately have "\<forall>l \<in> set (drop (max a b) lines).
      \<not> isContentLine (trim l) \<and> \<not> isPromptLine (trim l)"
    using assms(2) by blast
  then show ?thesis by (auto simp: filter_empty_conv isContentLine_def)
qed

lemma trim_Nil: "trim [] = []"
  by (simp add: trim_def)

lemma extractRecentConversation_prompt:
  assumes "scanDown (\<lambda>l. isPromptLine (trim l)) (sourceLines fullContent buffer)
             (length (sourceLines fullContent buffer)) = Some i"
  shows "claudeResponse (extractRecentConversation fullContent buffer)
           = (if contentAfter i (sourceLines fullContent buffer) = [] then txtTaskCompleted
              else joinLines (contentAfter i (sourceLines fullContent buffer)))"
    and "userQuestion (extractRecentConversation fullContent buffer)
           = (if trim (removeFirst rePromptPrefix (trim (sourceLines fullContent buffer ! i))) = []
              then txtRecentCommand
              else trim (removeFirst rePromptPrefix (trim (sourceLines fullContent buffer ! i))))"
proof -
  let ?L = "sourceLines fullContent buffer"
  let ?C = "contentAfter i ?L"
  have L: "sliceLast 200 (splitLines (if fullContent \<noteq> [] then fullContent else joinLines buffer)) = ?L"
    by (simp add: sourceLines_def)
  have np: "\<forall>l \<in> set (drop (Suc i) ?L). \<not> isPromptLine (trim l)"
    using after_last_prompt[OF assms] .
  have cr: "collectResponse (drop (Suc i) ?L) = ?C"
    using collectResponse_no_prompt[OF np] by (simp add: contentAfter_def)
  have tj: "trim (joinLines ?C) = joinLines ?C" "joinLines ?C = [] \<longleftrightarrow> ?C = []"
    using trim_joinLines_content[of ?C "drop (Suc i) ?L"] by (simp_all add: contentAfter_def)
  have fb: "?C = [] \<Longrightarrow>
      filter (\<lambda>line. line \<noteq> [] \<and> \<not> isUiLine line \<and> \<not> isPromptOnlyLine line)
           (map trim (drop (max (Suc i) (length ?L - 40)) ?L)) = []"
    using content_fallback_empty[of "Suc i" ?L "length ?L - 40"] np by (simp add: contentAfter_def)
  show "claudeResponse (extractRecentConversation fullContent buffer)
           = (if ?C = [] then txtTaskCompleted else joinLines ?C)"
    unfolding extractRecentConversation_def Let_def L
    using assms cr tj fb by (simp add: trim_Nil)
  show "userQuestion (extractRecentConversation fullContent buffer)
           = (if trim (removeFirst rePromptPrefix (trim (?L ! i))) = [] then txtRecentCommand
              else trim (removeFirst rePromptPrefix (trim (?L ! i))))"
    unfolding extractRecentConversation_def Let_def L
    using assms by simp
qed

lemma extractConversation_prompt:
  assumes "scanDown (\<lambda>l. isPromptLine (trim l)) (splitLines text) (length (splitLines text)) = Some i"
  shows "snd (extractConversation text)
           = (if contentAfter i (splitLines text) = [] then txtNoResponse
              else joinLines (contentAfter i (splitLines text)))"
proof -
  let ?L = "splitLines text"
  let ?C = "contentAfter i ?L"
  have np: "\<forall>l \<in> set (drop (Suc i) ?L). \<not> isPromptLine (trim l)"
    using after_last_prompt[OF assms] .
  have cr: "collectResponse (drop (Suc i) ?L) = ?C"
    using collectResponse_no_prompt[OF np] by (simp add: contentAfter_def)
  have tj: "trim (joinLines ?C) = joinLines ?C" "joinLines ?C = [] \<longleftrightarrow> ?C = []"
    using trim_joinLines_content[of ?C "drop (Suc i) ?L"] by (simp_all add: contentAfter_def)
  show ?thesis
    unfolding extractConversation_def Let_def
    using assms cr tj by simp
qed

lemma sentinels_not_empty: "txtTaskCompleted \<noteq> []" "txtNoResponse \<noteq> []" "txtRecentCommand \<noteq> []"
  by (simp_all add: txtTaskCompleted_def txtNoResponse_def txtRecentCommand_def ascii_def)

lemma extractConversation_question:
  assumes "scanDown (\<lambda>l. isPromptLine (trim l)) (splitLines text) (length (splitLines text)) = Some i"
    and "trim (removeFirst rePromptPrefix (trim (splitLines text ! i))) \<noteq> []"
  shows "fst (extractConversation text)
           = trim (removeFirst rePromptPrefix (trim (splitLines text ! i)))"
  unfolding extractConversation_def Let_def using assms by simp

lemma paneFix_facts:
  "scanDown (\<lambda>l. isPromptLine (trim l)) (sourceLines paneFix []) (length (sourceLines paneFix [])) = Some 0"
  "27 \<notin> set (sourceLines paneFix [] ! 0)"
  "trim (promptText (trim (sourceLines paneFix [] ! 0))) = ascii ''fix the bug''"
  "contentAfter 0 (sourceLines paneFix []) = [ascii ''I fixed it'']"
  "scanDown (\<lambda>l. isPromptLine (trim l)) (splitLines paneFix) (length (splitLines paneFix)) = Some 0"
  "27 \<notin> set (splitLines paneFix ! 0)"
  "trim (promptText (trim (splitLines paneFix ! 0))) = ascii ''fix the bug''"
  "contentAfter 0 (splitLines paneFix) = [ascii ''I fixed it'']"
  by code_simp+

lemma paneNoContent_facts:
  "scanDown (\<lambda>l. isPromptLine (trim l)) (sourceLines paneNoContent [])
     (length (sourceLines paneNoContent [])) = Some 0"
  "contentAfter 0 (sourceLines paneNoContent []) = []"
  "scanDown (\<lambda>l. isPromptLine (trim l)) (splitLines paneNoContent)
     (length (splitLines paneNoContent)) = Some 0"
  "contentAfter 0 (splitLines paneNoContent) = []"
  by code_simp+

text \<open>
  Claim C6. When a prompt line is found (\<open>i\<close> is the index of the last one in the
  window, \<open>j\<close> in the whole text), the response is never empty; it is the content
  lines after the prompt line, joined, when there is at least one, and the sentinel
  ("Task completed" for \<open>_extractRecentConversation\<close>, "No response" for
  \<open>extractConversation\<close>) takes their place only when there is none.
\<close>

theorem response_not_empty_sentinel_only_when_no_content:
  "(scanDown (\<lambda>l. isPromptLine (trim l)) (sourceLines fullContent buffer)
        (length (sourceLines fullContent buffer)) = Some i
    \<longrightarrow> claudeResponse (extractRecentConversation fullContent buffer) \<noteq> []
        \<and> claudeResponse (extractRecentConversation fullContent buffer)
           = (if contentAfter i (sourceLines fullContent buffer) = [] then txtTaskCompleted
              else joinLines (contentAfter i (sourceLines fullContent buffer))))
   \<and> (scanDown (\<lambda>l. isPromptLine (trim l)) (splitLines text) (length (splitLines text)) = Some j
    \<longrightarrow> snd (extractConversation text) \<noteq> []
        \<and> snd (extractConversation text)
           = (if contentAfter j (splitLines text) = [] then txtNoResponse
              else joinLines (contentAfter j (splitLines text))))"
proof (intro conjI impI)
  assume a: "scanDown (\<lambda>l. isPromptLine (trim l)) (sourceLines fullContent buffer)
        (length (sourceLines fullContent buffer)) = Some i"
  let ?C = "contentAfter i (sourceLines fullContent buffer)"
  have "joinLines ?C = [] \<longleftrightarrow> ?C = []"
    using trim_joinLines_content[of ?C] by (simp add: contentAfter_def)
  then show "claudeResponse (extractRecentConversation fullContent buffer) \<noteq> []"
    using extractRecentConversation_prompt(1)[OF a] sentinels_not_empty by simp
  show "claudeResponse (extractRecentConversation fullContent buffer)
           = (if ?C = [] then txtTaskCompleted else joinLines ?C)"
    using extractRecentConversation_prompt(1)[OF a] .
next
  assume b: "scanDown (\<lambda>l. isPromptLine (trim l)) (splitLines text) (length (splitLines text)) = Some j"
  let ?C = "contentAfter j (splitLines text)"
  have "joinLines ?C = [] \<longleftrightarrow> ?C = []"
    using trim_joinLines_content[of ?C] by (simp add: contentAfter_def)
  then show "snd (extractConversation text) \<noteq> []"
    using extractConversation_prompt[OF b] sentinels_not_empty by simp
  show "snd (extractConversation text)
           = (if ?C = [] then txtNoResponse else joinLines ?C)"
    using extractConversation_prompt[OF b] .
qed

theorem response_not_empty_sentinel_only_when_no_content_witness:
  "claudeResponse (extractRecentConversation paneFix []) = ascii ''I fixed it''
   \<and> claudeResponse (extractRecentConversation paneNoContent []) = txtTaskCompleted
   \<and> snd (extractConversation paneFix) = ascii ''I fixed it''
   \<and> snd (extractConversation paneNoContent) = txtNoResponse"
  using response_not_empty_sentinel_only_when_no_content [of paneFix "[]" 0 paneFix 0]
    response_not_empty_sentinel_only_when_no_content [of paneNoContent "[]" 0 paneNoContent 0]
    paneFix_facts paneNoContent_facts
  by simp

subsection \<open>The pattern of a prompt line, read as a function\<close>

lemma concat_singletons: "concat (map (\<lambda>q. [q]) xs) = xs"
  by (induction xs) simp_all

lemma ends_Eps_fun: "ends Eps = (\<lambda>q. [q])"
  by (rule ext) simp

lemma ends_Seq_Eps: "ends (Seq r Eps) p = ends r p"
  by (simp add: ends_Eps_fun concat_singletons)

lemma starIter_Atom:
  "length s \<le> fuel \<Longrightarrow> starIter (ends (Atom P)) fuel (prev, s) = runs P prev s"
proof (induction s arbitrary: fuel prev)
  case Nil
  then show ?case by (cases fuel) simp_all
next
  case (Cons c cs)
  then obtain n where n: "fuel = Suc n" "length cs \<le> n" by (cases fuel) simp_all
  show ?case using Cons.IH[OF n(2)] n(1) by simp
qed

lemma ends_Star_Atom: "ends (Star (Atom P)) (prev, s) = runs P prev s"
  by (simp add: starIter_Atom)

lemma snd_skipRun: "snd (skipRun P prev s) = dropWhile P s"
  by (induction s arbitrary: prev) simp_all

lemma runs_rejecting:
  assumes "\<And>prev c cs. P c \<Longrightarrow> f (prev, c # cs) = []"
  shows "concat (map f (runs P prev s)) = f (skipRun P prev s)"
  using assms by (induction s arbitrary: prev) simp_all

lemma hd_runs: "runs P prev s \<noteq> [] \<and> hd (runs P prev s) = skipRun P prev s"
  by (induction s arbitrary: prev) simp_all

lemma isSpace_not_glyph: "isSpace c \<Longrightarrow> c \<noteq> 0x203A \<and> c \<noteq> 0x2502 \<and> c \<noteq> 0x7C \<and> c \<noteq> 27"
  by (auto simp: isSpace_def)

lemma markerTail_ends:
  "ends (Seq marker (Seq (Plus sp) Eps)) (prev, s)
     = (case s of
          c # e # es \<Rightarrow> if c = 0x203A \<and> isSpace e then runs isSpace (Some e) es else []
        | _ \<Rightarrow> [])"
  by (auto simp: marker_def chr_def Plus_def sp_def ends_Star_Atom ends_Eps_fun concat_singletons
      simp del: ends.simps(5) split: list.splits)

lemma markerTail_rejects_space:
  "isSpace c \<Longrightarrow> ends (Seq marker (Seq (Plus sp) Eps)) (prev, c # cs) = []"
  using isSpace_not_glyph[of c] by (simp add: markerTail_ends del: ends.simps split: list.splits)

lemma snd_afterBorderPos: "snd (afterBorderPos (prev, s)) = afterBorder s"
  by (auto simp: afterBorderPos_def afterBorder_def snd_skipRun split: list.splits)

lemma ends_Seq_Opt: "ends (Seq (Opt b) r) p = concat (map (ends r) (ends b p)) @ ends r p"
  by (simp add: Opt_def)

lemma optBorder_ends:
  assumes "\<And>prev c cs. isSpace c \<Longrightarrow> ends R (prev, c # cs) = []"
    and "\<And>prev c cs. c = 0x2502 \<or> c = 0x7C \<Longrightarrow> ends R (prev, c # cs) = []"
  shows "ends (Seq (Opt (Seq bar (Seq (Star sp) Eps))) R) p = ends R (afterBorderPos p)"
proof (cases p)
  case (Pair prev s)
  show ?thesis
  proof (cases s)
    case Nil
    have "ends (Seq bar (Seq (Star sp) Eps)) (prev, []) = []"
      by (simp add: bar_def)
    then show ?thesis unfolding ends_Seq_Opt Pair Nil
      by (simp add: afterBorderPos_def del: ends.simps)
  next
    case (Cons c cs)
    show ?thesis
    proof (cases "c = 0x2502 \<or> c = 0x7C")
      case True
      have "ends (Seq bar (Seq (Star sp) Eps)) (prev, c # cs) = runs isSpace (Some c) cs"
        using True by (auto simp: bar_def sp_def ends_Eps_fun concat_singletons ends_Star_Atom
            simp del: ends.simps(5))
      moreover have "concat (map (ends R) (runs isSpace (Some c) cs)) = ends R (skipRun isSpace (Some c) cs)"
        by (rule runs_rejecting) (rule assms(1))
      moreover have "ends R (prev, c # cs) = []" using True assms(2) by blast
      ultimately show ?thesis unfolding ends_Seq_Opt Pair Cons using True
        by (simp add: afterBorderPos_def del: ends.simps)
    next
      case False
      then have "ends (Seq bar (Seq (Star sp) Eps)) (prev, c # cs) = []"
        by (simp add: bar_def)
      then show ?thesis unfolding ends_Seq_Opt Pair Cons using False
        by (simp add: afterBorderPos_def del: ends.simps)
    qed
  qed
qed

lemma leadingSpace_ends:
  assumes "\<And>prev c cs. isSpace c \<Longrightarrow> ends R (prev, c # cs) = []"
  shows "ends (Seq Bol (Seq (Star sp) R)) (None, s) = ends R (skipRun isSpace None s)"
proof -
  have "concat (map (ends R) (runs isSpace None s)) = ends R (skipRun isSpace None s)"
    by (rule runs_rejecting) (rule assms)
  then show ?thesis
    by (simp add: sp_def ends_Star_Atom del: ends.simps(5))
qed

lemma bol_later: "firstMatchFrom (Seq Bol R) (Some c) s k = None"
  by (induction s arbitrary: c k) simp_all

lemma firstMatch_bol:
  "firstMatch (Seq Bol R) s
     = (case ends (Seq Bol R) (None, s) of [] \<Rightarrow> None | q # qs \<Rightarrow> Some (0, snd q))"
  by (cases s) (simp_all add: firstMatch_def bol_later split: list.splits)

lemma markerTail_rejects_bar:
  "c = 0x2502 \<or> c = 0x7C \<Longrightarrow> ends (Seq marker (Seq (Plus sp) Eps)) (prev, c # cs) = []"
  by (auto simp add: markerTail_ends simp del: ends.simps split: list.splits)

lemma afterBorderPos_space:
  "isSpace c \<Longrightarrow> afterBorderPos (prev, c # cs) = (prev, c # cs)"
  using isSpace_not_glyph[of c] by (simp add: afterBorderPos_def)

lemma rePromptPrefix_unfold:
  "rePromptPrefix
     = Seq Bol (Seq (Star sp) (Seq (Opt (Seq bar (Seq (Star sp) Eps)))
         (Seq marker (Seq (Plus sp) Eps))))"
  by (simp add: rePromptPrefix_def Seqs_def)

lemma rePromptPrefix_ends:
  "ends rePromptPrefix (None, t)
     = ends (Seq marker (Seq (Plus sp) Eps)) (afterBorderPos (skipRun isSpace None t))"
proof -
  let ?MT = "Seq marker (Seq (Plus sp) Eps)"
  let ?R = "Seq (Opt (Seq bar (Seq (Star sp) Eps))) ?MT"
  have ob: "\<And>p. ends ?R p = ends ?MT (afterBorderPos p)"
    by (rule optBorder_ends) (simp_all only: markerTail_rejects_space markerTail_rejects_bar)
  have rej: "\<And>prev c cs. isSpace c \<Longrightarrow> ends ?R (prev, c # cs) = []"
    by (simp only: ob afterBorderPos_space markerTail_rejects_space)
  have "ends (Seq Bol (Seq (Star sp) ?R)) (None, t) = ends ?R (skipRun isSpace None t)"
    by (rule leadingSpace_ends) (rule rej)
  then show ?thesis unfolding rePromptPrefix_unfold by (simp only: ob)
qed

lemma removeFirst_rePromptPrefix:
  "removeFirst rePromptPrefix t
     = (case afterBorder (dropWhile isSpace t) of
          c # e # es \<Rightarrow> if c = 0x203A \<and> isSpace e then dropWhile isSpace es else t
        | _ \<Rightarrow> t)"
proof -
  obtain pb where pb: "afterBorderPos (skipRun isSpace None t) = (pb, afterBorder (dropWhile isSpace t))"
    by (metis snd_afterBorderPos snd_skipRun prod.collapse)
  have fm: "firstMatch rePromptPrefix t
     = (case ends rePromptPrefix (None, t) of [] \<Rightarrow> None | q # qs \<Rightarrow> Some (0, snd q))"
    unfolding rePromptPrefix_unfold by (rule firstMatch_bol)
  have e: "ends rePromptPrefix (None, t)
     = (case afterBorder (dropWhile isSpace t) of
          c # e # es \<Rightarrow> if c = 0x203A \<and> isSpace e then runs isSpace (Some e) es else []
        | _ \<Rightarrow> [])"
    unfolding rePromptPrefix_ends pb by (rule markerTail_ends)
  have r: "\<And>e es. (case runs isSpace (Some e) es of [] \<Rightarrow> None | q # qs \<Rightarrow> Some (0::nat, snd q))
              = Some (0, dropWhile isSpace es)"
    using hd_runs[of isSpace] snd_skipRun[of isSpace]
    by (metis (no_types, lifting) list.case_eq_if list.collapse list.sel(1) list.simps(5))
  show ?thesis
    unfolding removeFirst_def fm e
    by (auto simp: r split: list.splits)
qed

lemma concat_map_concat:
  "concat (map f (concat xss)) = concat (map (\<lambda>xs. concat (map f xs)) xss)"
  by (induction xss) simp_all

lemma ends_Seq_assoc: "ends (Seq (Seq a b) c) p = ends (Seq a (Seq b c)) p"
proof -
  have "ends (Seq b c) = (\<lambda>x. concat (map (ends c) (ends b x)))"
    by (rule ext) simp
  then show ?thesis by (simp add: concat_map_concat comp_def)
qed

lemma ends_Seq_chr:
  "ends (Seq (chr k) r) (prev, s)
     = (case s of [] \<Rightarrow> [] | c # cs \<Rightarrow> if c = k then ends r (Some c, cs) else [])"
  by (simp add: chr_def split: list.splits)

lemma ends_Seq_Atom:
  "ends (Seq (Atom P) r) (prev, s)
     = (case s of [] \<Rightarrow> [] | c # cs \<Rightarrow> if P c then ends r (Some c, cs) else [])"
  by (simp split: list.splits)

lemma ends_nonsp:
  "ends (Seq nonsp Eps) (q, r)
     = (case r of [] \<Rightarrow> [] | d # ds \<Rightarrow> if isSpace d then [] else [(Some d, ds)])"
  by (simp add: nonsp_def split: list.splits)

lemma nonsp_after_spaces:
  "concat (map (ends (Seq nonsp Eps)) (runs isSpace prev s))
     = (case dropWhile isSpace s of [] \<Rightarrow> [] | d # ds \<Rightarrow> [(Some d, ds)])"
proof -
  have rej: "\<And>prev c cs. isSpace c \<Longrightarrow> ends (Seq nonsp Eps) (prev, c # cs) = []"
    by (simp add: nonsp_def)
  have e1: "concat (map (ends (Seq nonsp Eps)) (runs isSpace prev s))
          = ends (Seq nonsp Eps) (skipRun isSpace prev s)"
    by (rule runs_rejecting) (rule rej)
  obtain q where q: "skipRun isSpace prev s = (q, dropWhile isSpace s)"
    by (metis snd_skipRun prod.collapse)
  show ?thesis
  proof (cases "dropWhile isSpace s")
    case Nil
    show ?thesis unfolding e1 q ends_nonsp Nil by simp
  next
    case (Cons d ds)
    then have "\<not> isSpace d" using hd_dropWhile[of isSpace s] by simp
    then show ?thesis unfolding e1 q ends_nonsp Cons by simp
  qed
qed

lemma promptTail_ends:
  "ends (Seq marker (Seq (Plus sp) (Seq nonsp Eps))) (prev, s)
     = (case s of
          c # e # es \<Rightarrow>
            if c = 0x203A \<and> isSpace e
            then (case dropWhile isSpace es of [] \<Rightarrow> [] | d # ds \<Rightarrow> [(Some d, ds)])
            else []
        | _ \<Rightarrow> [])"
proof -
  have step: "\<And>p. ends (Seq (Plus sp) (Seq nonsp Eps)) p
      = ends (Seq sp (Seq (Star sp) (Seq nonsp Eps))) p"
    unfolding Plus_def by (rule ends_Seq_assoc)
  have tail: "\<And>q e es. ends (Seq sp (Seq (Star sp) (Seq nonsp Eps))) (q, e # es)
      = (if isSpace e then (case dropWhile isSpace es of [] \<Rightarrow> [] | d # ds \<Rightarrow> [(Some d, ds)]) else [])"
  proof -
    fix q e es
    have "ends (Seq (Star sp) (Seq nonsp Eps)) (Some e, es)
        = concat (map (ends (Seq nonsp Eps)) (runs isSpace (Some e) es))"
      by (simp add: sp_def ends_Star_Atom del: ends.simps(5))
    then have "ends (Seq (Star sp) (Seq nonsp Eps)) (Some e, es)
        = (case dropWhile isSpace es of [] \<Rightarrow> [] | d # ds \<Rightarrow> [(Some d, ds)])"
      by (simp only: nonsp_after_spaces)
    moreover have "ends (Seq sp (Seq (Star sp) (Seq nonsp Eps))) (q, e # es)
        = (if isSpace e then ends (Seq (Star sp) (Seq nonsp Eps)) (Some e, es) else [])"
      unfolding sp_def ends_Seq_Atom by simp
    ultimately show "ends (Seq sp (Seq (Star sp) (Seq nonsp Eps))) (q, e # es)
      = (if isSpace e then (case dropWhile isSpace es of [] \<Rightarrow> [] | d # ds \<Rightarrow> [(Some d, ds)]) else [])"
      by (simp only:)
  qed
  have empty: "\<And>q. ends (Seq sp (Seq (Star sp) (Seq nonsp Eps))) (q, []) = []"
    unfolding sp_def ends_Seq_Atom by simp
  have m: "ends (Seq marker (Seq (Plus sp) (Seq nonsp Eps))) (prev, s)
      = (case s of [] \<Rightarrow> []
         | c # cs \<Rightarrow> if c = 0x203A then ends (Seq sp (Seq (Star sp) (Seq nonsp Eps))) (Some c, cs) else [])"
    unfolding marker_def ends_Seq_chr step by (rule refl)
  show ?thesis
    unfolding m by (auto simp del: ends.simps simp add: tail empty split: list.splits)
qed

lemma rePromptLine_unfold:
  "rePromptLine
     = Seq Bol (Seq (Star sp) (Seq (Opt (Seq bar (Seq (Star sp) Eps)))
         (Seq marker (Seq (Plus sp) (Seq nonsp Eps)))))"
  by (simp add: rePromptLine_def Seqs_def)

lemma promptTail_rejects:
  "isSpace c \<Longrightarrow> ends (Seq marker (Seq (Plus sp) (Seq nonsp Eps))) (prev, c # cs) = []"
  "c = 0x2502 \<or> c = 0x7C \<Longrightarrow> ends (Seq marker (Seq (Plus sp) (Seq nonsp Eps))) (prev, c # cs) = []"
  using isSpace_not_glyph[of c]
  by (auto simp add: promptTail_ends simp del: ends.simps split: list.splits)

lemma test_rePromptLine:
  "test rePromptLine t
     \<longleftrightarrow> (case afterBorder (dropWhile isSpace t) of
            c # e # es \<Rightarrow> c = 0x203A \<and> isSpace e \<and> dropWhile isSpace es \<noteq> []
          | _ \<Rightarrow> False)"
proof -
  let ?PT = "Seq marker (Seq (Plus sp) (Seq nonsp Eps))"
  let ?R = "Seq (Opt (Seq bar (Seq (Star sp) Eps))) ?PT"
  have ob: "\<And>p. ends ?R p = ends ?PT (afterBorderPos p)"
    by (rule optBorder_ends) (simp_all only: promptTail_rejects)
  have rej: "\<And>prev c cs. isSpace c \<Longrightarrow> ends ?R (prev, c # cs) = []"
    by (simp only: ob afterBorderPos_space promptTail_rejects)
  have "ends (Seq Bol (Seq (Star sp) ?R)) (None, t) = ends ?R (skipRun isSpace None t)"
    by (rule leadingSpace_ends) (rule rej)
  then have e0: "ends rePromptLine (None, t) = ends ?PT (afterBorderPos (skipRun isSpace None t))"
    unfolding rePromptLine_unfold by (simp only: ob)
  obtain pb where pb: "afterBorderPos (skipRun isSpace None t) = (pb, afterBorder (dropWhile isSpace t))"
    by (metis snd_afterBorderPos snd_skipRun prod.collapse)
  have fm: "firstMatch rePromptLine t
     = (case ends rePromptLine (None, t) of [] \<Rightarrow> None | q # qs \<Rightarrow> Some (0, snd q))"
    unfolding rePromptLine_unfold by (rule firstMatch_bol)
  show ?thesis
    unfolding test_def fm e0 pb promptTail_ends
    by (auto split: list.splits simp del: dropWhile_eq_Nil_conv)
qed

lemma reAnsi_no_escape: "s = [] \<or> hd s \<noteq> 27 \<Longrightarrow> ends reAnsi (prev, s) = []"
  by (cases s) (auto simp: reAnsi_def Seqs_def chr_def)

lemma removeAll_reAnsi_id: "27 \<notin> set s \<Longrightarrow> removeAll reAnsi prev s = s"
proof (induction s arbitrary: prev)
  case Nil
  then show ?case by (simp add: removeAll.simps[of reAnsi prev "[]"] reAnsi_no_escape)
next
  case (Cons c cs)
  then have "ends reAnsi (prev, c # cs) = []" by (simp add: reAnsi_no_escape)
  then show ?case using Cons by (simp add: removeAll.simps[of reAnsi prev "c # cs"])
qed

lemma stripAnsi_id: "27 \<notin> set s \<Longrightarrow> stripAnsi s = s"
  by (simp add: stripAnsi_def removeAll_reAnsi_id)

lemma promptLine_text:
  assumes "27 \<notin> set t" and "isPromptLine t"
  shows "removeFirst rePromptPrefix t = promptText t"
    and "promptText t \<noteq> []" and "\<not> isSpace (hd (promptText t))"
proof -
  have tp: "test rePromptLine t" using assms by (simp add: isPromptLine_def stripAnsi_id)
  then obtain c e es where b: "afterBorder (dropWhile isSpace t) = c # e # es"
    "c = 0x203A" "isSpace e" "dropWhile isSpace es \<noteq> []"
    unfolding test_rePromptLine by (auto split: list.splits)
  have pt: "promptText t = dropWhile isSpace es"
    using b(1,3) by (simp add: promptText_def)
  show "removeFirst rePromptPrefix t = promptText t"
    unfolding removeFirst_rePromptPrefix pt using b by simp
  show "promptText t \<noteq> []" using pt b(4) by simp
  show "\<not> isSpace (hd (promptText t))" unfolding pt using b(4) hd_dropWhile by blast
qed

lemma question_of_prompt_line:
  assumes "isPromptLine (trim l)" and "27 \<notin> set l"
  shows "trim (removeFirst rePromptPrefix (trim l)) = trim (promptText (trim l))"
    and "trim (promptText (trim l)) \<noteq> []"
proof -
  have e: "27 \<notin> set (trim l)" using assms(2) set_trim by blast
  show "trim (removeFirst rePromptPrefix (trim l)) = trim (promptText (trim l))"
    using promptLine_text(1)[OF e assms(1)] by simp
  show "trim (promptText (trim l)) \<noteq> []"
    using promptLine_text(2,3)[OF e assms(1)] trim_not_Nil by blast
qed

subsection \<open>A prompt line, content lines, a bare prompt\<close>

lemma linePromptFix_facts:
  "isPromptLine (trim linePromptFix)"
  "trim (removeFirst rePromptPrefix (trim linePromptFix)) = ascii ''fix the bug''"
  "10 \<notin> set linePromptFix" "linePromptFix \<noteq> []"
  by code_simp+

lemma lineBarePrompt_facts:
  "\<not> isPromptLine (trim lineBarePrompt)" "\<not> isContentLine (trim lineBarePrompt)"
  "10 \<notin> set lineBarePrompt"
  by code_simp+

lemma filter_content_all:
  assumes "\<forall>c \<in> set content. isContentLine (trim c)"
  shows "filter isContentLine (map trim content) = map trim content"
  using assms by (induction content) simp_all

lemma scenario_lines:
  assumes "\<forall>c \<in> set content. isContentLine (trim c)"
  shows "scanDown (\<lambda>l. isPromptLine (trim l)) (before @ [linePromptFix] @ content @ [lineBarePrompt])
           (length (before @ [linePromptFix] @ content @ [lineBarePrompt])) = Some (length before)"
    and "contentAfter (length before) (before @ [linePromptFix] @ content @ [lineBarePrompt])
           = map trim content"
    and "(before @ [linePromptFix] @ content @ [lineBarePrompt]) ! length before = linePromptFix"
proof -
  let ?L = "before @ [linePromptFix] @ content @ [lineBarePrompt]"
  let ?k = "length before"
  show at: "?L ! ?k = linePromptFix" by simp
  have later: "\<forall>j. ?k < j \<and> j < length ?L \<longrightarrow> \<not> isPromptLine (trim (?L ! j))"
  proof (intro allI impI)
    fix j assume j: "?k < j \<and> j < length ?L"
    define d where "d = j - Suc ?k"
    have d: "j = Suc ?k + d" "d < length (content @ [lineBarePrompt])"
      using j by (auto simp: d_def)
    have "?L ! j = ([linePromptFix] @ content @ [lineBarePrompt]) ! (j - ?k)"
      using j by (simp add: nth_append)
    also have "\<dots> = (content @ [lineBarePrompt]) ! d"
      using d(1) by simp
    finally have "?L ! j = (content @ [lineBarePrompt]) ! d" .
    then have "?L ! j \<in> set (content @ [lineBarePrompt])" using d(2) nth_mem by metis
    then show "\<not> isPromptLine (trim (?L ! j))"
      using assms lineBarePrompt_facts(1) by (auto simp: isContentLine_def)
  qed
  show "scanDown (\<lambda>l. isPromptLine (trim l)) ?L (length ?L) = Some ?k"
    by (rule scanDown_eq) (use at linePromptFix_facts(1) later in simp_all)
  show "contentAfter ?k ?L = map trim content"
    using filter_content_all[OF assms] lineBarePrompt_facts(2)
    by (simp add: contentAfter_def)
qed

lemma scenario_window:
  assumes "\<forall>l \<in> set (before @ content). 10 \<notin> set l" and "length content + 2 \<le> 200"
  shows "sourceLines (joinLines (before @ [linePromptFix] @ content @ [lineBarePrompt])) buffer
           = drop (length (before @ [linePromptFix] @ content @ [lineBarePrompt]) - 200) before
             @ [linePromptFix] @ content @ [lineBarePrompt]"
    and "splitLines (joinLines (before @ [linePromptFix] @ content @ [lineBarePrompt]))
           = before @ [linePromptFix] @ content @ [lineBarePrompt]"
proof -
  let ?L = "before @ [linePromptFix] @ content @ [lineBarePrompt]"
  have nl: "\<forall>l \<in> set ?L. 10 \<notin> set l"
    using assms(1) linePromptFix_facts(3) lineBarePrompt_facts(3) by auto
  show sj: "splitLines (joinLines ?L) = ?L"
    by (rule splitLines_joinLines) (use nl in simp_all)
  have ne: "joinLines ?L \<noteq> []"
    by (rule joinLines_not_Nil[of linePromptFix]) (use linePromptFix_facts(4) in simp_all)
  have "length ?L - 200 \<le> length before" using assms(2) by simp
  then have "drop (length ?L - 200) ?L = drop (length ?L - 200) before @ [linePromptFix] @ content @ [lineBarePrompt]"
    by simp
  then show "sourceLines (joinLines ?L) buffer
           = drop (length ?L - 200) before @ [linePromptFix] @ content @ [lineBarePrompt]"
    using sj ne by (simp add: sourceLines_def sliceLast_def)
qed

lemma fix_the_bug_not_Nil: "ascii ''fix the bug'' \<noteq> []"
  by (simp add: ascii_def)

lemma scenario_recent:
  assumes nl: "\<forall>l \<in> set (before @ content). 10 \<notin> set l"
    and ne: "content \<noteq> []"
    and ct: "\<forall>c \<in> set content. isContentLine (trim c)"
    and w: "length content + 2 \<le> 200"
  shows "userQuestion (extractRecentConversation
            (joinLines (before @ [linePromptFix] @ content @ [lineBarePrompt])) buffer)
          = ascii ''fix the bug''"
    and "claudeResponse (extractRecentConversation
            (joinLines (before @ [linePromptFix] @ content @ [lineBarePrompt])) buffer)
          = joinLines (map trim content)"
    and "joinLines (map trim content) \<noteq> []"
proof -
  let ?L = "before @ [linePromptFix] @ content @ [lineBarePrompt]"
  let ?b = "drop (length ?L - 200) before"
  let ?W = "?b @ [linePromptFix] @ content @ [lineBarePrompt]"
  have W: "sourceLines (joinLines ?L) buffer = ?W" using scenario_window(1)[OF nl w] .
  have sd: "scanDown (\<lambda>l. isPromptLine (trim l)) (sourceLines (joinLines ?L) buffer)
              (length (sourceLines (joinLines ?L) buffer)) = Some (length ?b)"
    unfolding W using scenario_lines(1)[OF ct, where before = ?b] .
  have ca: "contentAfter (length ?b) (sourceLines (joinLines ?L) buffer) = map trim content"
    unfolding W using scenario_lines(2)[OF ct, where before = ?b] .
  have at: "sourceLines (joinLines ?L) buffer ! length ?b = linePromptFix"
    unfolding W using scenario_lines(3)[OF ct, where before = ?b] .
  show "userQuestion (extractRecentConversation (joinLines ?L) buffer) = ascii ''fix the bug''"
    using extractRecentConversation_prompt(2)[OF sd] at linePromptFix_facts(2) fix_the_bug_not_Nil
    by simp
  show "claudeResponse (extractRecentConversation (joinLines ?L) buffer) = joinLines (map trim content)"
    using extractRecentConversation_prompt(1)[OF sd] ca ne by simp
  show "joinLines (map trim content) \<noteq> []"
    using trim_joinLines_content[of "map trim content" content] filter_content_all[OF ct] ne
    by simp
qed

lemma scenario_extractConversation:
  assumes nl: "\<forall>l \<in> set (before @ content). 10 \<notin> set l"
    and ne: "content \<noteq> []"
    and ct: "\<forall>c \<in> set content. isContentLine (trim c)"
  shows "extractConversation (joinLines (before @ [linePromptFix] @ content @ [lineBarePrompt]))
          = (ascii ''fix the bug'', joinLines (map trim content))"
proof -
  let ?L = "before @ [linePromptFix] @ content @ [lineBarePrompt]"
  have nl': "\<forall>l \<in> set ?L. 10 \<notin> set l"
    using nl linePromptFix_facts(3) lineBarePrompt_facts(3) by auto
  have sj: "splitLines (joinLines ?L) = ?L"
    by (rule splitLines_joinLines) (use nl' in simp_all)
  have sd: "scanDown (\<lambda>l. isPromptLine (trim l)) (splitLines (joinLines ?L))
              (length (splitLines (joinLines ?L))) = Some (length before)"
    unfolding sj using scenario_lines(1)[OF ct, where before = before] .
  have ca: "contentAfter (length before) (splitLines (joinLines ?L)) = map trim content"
    unfolding sj using scenario_lines(2)[OF ct, where before = before] .
  have at: "splitLines (joinLines ?L) ! length before = linePromptFix"
    unfolding sj using scenario_lines(3)[OF ct, where before = before] .
  have "fst (extractConversation (joinLines ?L)) = ascii ''fix the bug''"
    using extractConversation_question[OF sd] at linePromptFix_facts(2) fix_the_bug_not_Nil
    by simp
  moreover have "snd (extractConversation (joinLines ?L)) = joinLines (map trim content)"
    using extractConversation_prompt[OF sd] ca ne by simp
  ultimately show ?thesis by (simp add: prod_eq_iff)
qed

subsection \<open>Question and response\<close>

text \<open>
  Claim C2, as stated, fails. A prompt line followed by no content line gives the
  sentinel, not the empty concatenation of the content lines. And a prompt line
  wrapped in colour codes is recognised (the test strips the codes) but its marker is
  not removed (the removal works on the raw line): the question is the whole line.
\<close>

theorem response_sentinel_and_colour_codes:
  "scanDown (\<lambda>l. isPromptLine (trim l)) (sourceLines paneNoContent [])
     (length (sourceLines paneNoContent [])) = Some 0
   \<and> joinLines (contentAfter 0 (sourceLines paneNoContent [])) = []
   \<and> claudeResponse (extractRecentConversation paneNoContent []) = txtTaskCompleted
   \<and> snd (extractConversation paneNoContent) = txtNoResponse
   \<and> scanDown (\<lambda>l. isPromptLine (trim l)) (sourceLines paneAnsi [])
     (length (sourceLines paneAnsi [])) = Some 0
   \<and> userQuestion (extractRecentConversation paneAnsi [])
       = [27] @ ascii ''[1m'' @ linePromptFix @ [27] @ ascii ''[0m''"
  by code_simp

text \<open>
  Claim C2, amended. Let line \<open>i\<close> be the last prompt line of the window (line \<open>j\<close> of
  the whole text, for \<open>extractConversation\<close>), free of escape characters. Then the
  question is the text of that line (\<open>promptText\<close>: white space, border, marker and the
  white space after it removed), trimmed, and it is not empty; the response is the
  trimmed content lines after that line, in order, joined by newlines, or the sentinel
  when there is none. In particular, for a buffer that ends with the line
  "\<rangle> fix the bug", then content lines, then a bare prompt, the question is
  "fix the bug" and the response, not empty, is the content lines joined; for
  \<open>_extractRecentConversation\<close> this needs the prompt line inside the window of 200
  lines.
\<close>

theorem conversation_after_last_prompt:
  "(scanDown (\<lambda>l. isPromptLine (trim l)) (sourceLines fullContent buffer)
        (length (sourceLines fullContent buffer)) = Some i
      \<and> 27 \<notin> set (sourceLines fullContent buffer ! i)
    \<longrightarrow> userQuestion (extractRecentConversation fullContent buffer)
          = trim (promptText (trim (sourceLines fullContent buffer ! i)))
        \<and> userQuestion (extractRecentConversation fullContent buffer) \<noteq> []
        \<and> claudeResponse (extractRecentConversation fullContent buffer)
          = (if contentAfter i (sourceLines fullContent buffer) = [] then txtTaskCompleted
             else joinLines (contentAfter i (sourceLines fullContent buffer))))
   \<and> (scanDown (\<lambda>l. isPromptLine (trim l)) (splitLines text) (length (splitLines text)) = Some j
      \<and> 27 \<notin> set (splitLines text ! j)
    \<longrightarrow> extractConversation text
          = (trim (promptText (trim (splitLines text ! j))),
             if contentAfter j (splitLines text) = [] then txtNoResponse
             else joinLines (contentAfter j (splitLines text))))
   \<and> ((\<forall>l \<in> set (before @ content). 10 \<notin> set l) \<and> content \<noteq> []
      \<and> (\<forall>c \<in> set content. isContentLine (trim c))
    \<longrightarrow> extractConversation (joinLines (before @ [linePromptFix] @ content @ [lineBarePrompt]))
          = (ascii ''fix the bug'', joinLines (map trim content))
        \<and> joinLines (map trim content) \<noteq> []
        \<and> (length content + 2 \<le> 200 \<longrightarrow>
             userQuestion (extractRecentConversation
                (joinLines (before @ [linePromptFix] @ content @ [lineBarePrompt])) buffer')
               = ascii ''fix the bug''
           \<and> claudeResponse (extractRecentConversation
                (joinLines (before @ [linePromptFix] @ content @ [lineBarePrompt])) buffer')
               = joinLines (map trim content)))"
proof (intro conjI impI)
  assume a: "scanDown (\<lambda>l. isPromptLine (trim l)) (sourceLines fullContent buffer)
        (length (sourceLines fullContent buffer)) = Some i
      \<and> 27 \<notin> set (sourceLines fullContent buffer ! i)"
  then have sd: "scanDown (\<lambda>l. isPromptLine (trim l)) (sourceLines fullContent buffer)
        (length (sourceLines fullContent buffer)) = Some i" by simp
  have p: "isPromptLine (trim (sourceLines fullContent buffer ! i))"
    using scanDown_Some[OF sd] by simp
  have q: "trim (removeFirst rePromptPrefix (trim (sourceLines fullContent buffer ! i)))
             = trim (promptText (trim (sourceLines fullContent buffer ! i)))"
    "trim (promptText (trim (sourceLines fullContent buffer ! i))) \<noteq> []"
    using question_of_prompt_line[OF p] a by simp_all
  show uq: "userQuestion (extractRecentConversation fullContent buffer)
          = trim (promptText (trim (sourceLines fullContent buffer ! i)))"
    using extractRecentConversation_prompt(2)[OF sd] q by simp
  show "userQuestion (extractRecentConversation fullContent buffer) \<noteq> []"
    using uq q(2) by simp
  show "claudeResponse (extractRecentConversation fullContent buffer)
          = (if contentAfter i (sourceLines fullContent buffer) = [] then txtTaskCompleted
             else joinLines (contentAfter i (sourceLines fullContent buffer)))"
    using extractRecentConversation_prompt(1)[OF sd] .
next
  assume b: "scanDown (\<lambda>l. isPromptLine (trim l)) (splitLines text) (length (splitLines text)) = Some j
      \<and> 27 \<notin> set (splitLines text ! j)"
  then have sd: "scanDown (\<lambda>l. isPromptLine (trim l)) (splitLines text) (length (splitLines text)) = Some j"
    by simp
  have p: "isPromptLine (trim (splitLines text ! j))"
    using scanDown_Some[OF sd] by simp
  have q: "trim (removeFirst rePromptPrefix (trim (splitLines text ! j)))
             = trim (promptText (trim (splitLines text ! j)))"
    "trim (promptText (trim (splitLines text ! j))) \<noteq> []"
    using question_of_prompt_line[OF p] b by simp_all
  have "fst (extractConversation text) = trim (promptText (trim (splitLines text ! j)))"
    using extractConversation_question[OF sd] q by simp
  then show "extractConversation text
          = (trim (promptText (trim (splitLines text ! j))),
             if contentAfter j (splitLines text) = [] then txtNoResponse
             else joinLines (contentAfter j (splitLines text)))"
    using extractConversation_prompt[OF sd] by (simp add: prod_eq_iff)
next
  assume c: "(\<forall>l \<in> set (before @ content). 10 \<notin> set l) \<and> content \<noteq> []
      \<and> (\<forall>c \<in> set content. isContentLine (trim c))"
  then show "extractConversation (joinLines (before @ [linePromptFix] @ content @ [lineBarePrompt]))
          = (ascii ''fix the bug'', joinLines (map trim content))"
    using scenario_extractConversation[of before content] by blast
next
  assume c: "(\<forall>l \<in> set (before @ content). 10 \<notin> set l) \<and> content \<noteq> []
      \<and> (\<forall>c \<in> set content. isContentLine (trim c))"
  then show "joinLines (map trim content) \<noteq> []"
    using trim_joinLines_content[of "map trim content" content] filter_content_all[of content]
    by simp
next
  assume c: "(\<forall>l \<in> set (before @ content). 10 \<notin> set l) \<and> content \<noteq> []
      \<and> (\<forall>c \<in> set content. isContentLine (trim c))"
    and w: "length content + 2 \<le> 200"
  then show "userQuestion (extractRecentConversation
                (joinLines (before @ [linePromptFix] @ content @ [lineBarePrompt])) buffer')
               = ascii ''fix the bug''"
    using scenario_recent(1)[of before content buffer'] by blast
next
  assume c: "(\<forall>l \<in> set (before @ content). 10 \<notin> set l) \<and> content \<noteq> []
      \<and> (\<forall>c \<in> set content. isContentLine (trim c))"
    and w: "length content + 2 \<le> 200"
  then show "claudeResponse (extractRecentConversation
                (joinLines (before @ [linePromptFix] @ content @ [lineBarePrompt])) buffer')
               = joinLines (map trim content)"
    using scenario_recent(2)[of before content buffer'] by blast
qed

theorem conversation_after_last_prompt_witness:
  "userQuestion (extractRecentConversation paneFix []) = ascii ''fix the bug''
   \<and> claudeResponse (extractRecentConversation paneFix []) = ascii ''I fixed it''
   \<and> extractConversation paneFix = (ascii ''fix the bug'', ascii ''I fixed it'')
   \<and> extractConversation (joinLines ([] @ [linePromptFix] @ [ascii ''  I fixed it ''] @ [lineBarePrompt]))
       = (ascii ''fix the bug'', joinLines (map trim [ascii ''  I fixed it '']))"
proof -
  have c: "(\<forall>l \<in> set ([] @ [ascii ''  I fixed it '']). 10 \<notin> set l)
      \<and> [ascii ''  I fixed it ''] \<noteq> []
      \<and> (\<forall>c \<in> set [ascii ''  I fixed it '']. isContentLine (trim c))"
    by code_simp
  show ?thesis
    using conversation_after_last_prompt [of paneFix "[]" 0 paneFix 0 "[]"
        "[ascii ''  I fixed it '']" "[]"] paneFix_facts c
    by simp
qed

section \<open>Properties of the poll cycle: duplicates and waiting events\<close>

subsection \<open>Matching a literal, matching a first character\<close>

lemma includes_js_iff: "includes_js s sub \<longleftrightarrow> (\<exists>pre post. s = pre @ sub @ post)"
proof -
  have sw: "\<And>s. startsWith s sub \<longleftrightarrow> (\<exists>post. s = sub @ post)"
  proof -
    fix s show "startsWith s sub \<longleftrightarrow> (\<exists>post. s = sub @ post)"
      by (induction s sub rule: startsWith.induct) auto
  qed
  show ?thesis
  proof (induction s)
    case Nil
    then show ?case by auto
  next
    case (Cons c cs)
    show ?case
    proof
      assume "includes_js (c # cs) sub"
      then consider "startsWith (c # cs) sub" | "includes_js cs sub" by (auto split: if_splits)
      then show "\<exists>pre post. c # cs = pre @ sub @ post"
      proof cases
        case 1
        then obtain post where "c # cs = sub @ post" using sw by blast
        then have "c # cs = [] @ sub @ post" by simp
        then show ?thesis by blast
      next
        case 2
        then obtain pre post where "cs = pre @ sub @ post" using Cons by blast
        then have "c # cs = (c # pre) @ sub @ post" by simp
        then show ?thesis by blast
      qed
    next
      assume "\<exists>pre post. c # cs = pre @ sub @ post"
      then obtain pre post where e: "c # cs = pre @ sub @ post" by blast
      show "includes_js (c # cs) sub"
      proof (cases pre)
        case Nil
        then have "startsWith (c # cs) sub" using e sw by auto
        then show ?thesis by simp
      next
        case (Cons a pre')
        then have "cs = pre' @ sub @ post" using e by simp
        then have "includes_js cs sub" using Cons.IH by blast
        then show ?thesis by simp
      qed
    qed
  qed
qed

lemma firstMatchFrom_found:
  "ends r (if pre = [] then prev else Some (last pre), post) \<noteq> []
     \<Longrightarrow> firstMatchFrom r prev (pre @ post) k \<noteq> None"
proof (induction pre arbitrary: prev k)
  case Nil
  then show ?case by (cases post) (auto split: list.splits)
next
  case (Cons a pre)
  have "ends r (if pre = [] then Some a else Some (last pre), post) \<noteq> []"
    using Cons.prems by (auto split: if_splits)
  then have "firstMatchFrom r (Some a) (pre @ post) (Suc k) \<noteq> None"
    using Cons.IH by blast
  then show ?case by (auto split: list.splits)
qed

lemma test_found:
  "ends r (if pre = [] then None else Some (last pre), post) \<noteq> [] \<Longrightarrow> test r (pre @ post)"
  using firstMatchFrom_found[of r pre None post 0]
  by (auto simp: test_def firstMatch_def split: option.splits)

lemma ends_literal_ci:
  "ends (Seqs (map chri lit)) (prev, lit @ post) \<noteq> []"
proof (induction lit arbitrary: prev)
  case Nil
  then show ?case by (simp add: Seqs_def)
next
  case (Cons c lit)
  have "ends (Seqs (map chri (c # lit))) (prev, (c # lit) @ post)
          = ends (Seqs (map chri lit)) (Some c, lit @ post)"
    by (simp add: Seqs_def chri_def)
  then show ?case using Cons.IH by simp
qed

lemma includes_test_stri:
  assumes "includes_js s (ascii lit)"
  shows "test (stri lit) s"
proof -
  obtain pre post where s: "s = pre @ ascii lit @ post"
    using assms includes_js_iff by blast
  have "ends (stri lit) (if pre = [] then None else Some (last pre), ascii lit @ post) \<noteq> []"
    unfolding stri_def by (rule ends_literal_ci)
  then show ?thesis unfolding s by (rule test_found)
qed

lemma firstMatchFrom_first_atom:
  "firstMatchFrom (Seq (Atom P) r) prev s k \<noteq> None \<Longrightarrow> \<exists>c \<in> set s. P c"
  by (induction s arbitrary: prev k) (auto split: list.splits if_splits)

lemma test_first_atom: "test (Seq (Atom P) r) s \<Longrightarrow> \<exists>c \<in> set s. P c"
  using firstMatchFrom_first_atom[of P r None s 0]
  by (auto simp: test_def firstMatch_def split: option.splits)

lemma firstMatchFrom_cong:
  "(\<And>p. ends r p = ends r' p) \<Longrightarrow> firstMatchFrom r prev s k = firstMatchFrom r' prev s k"
  by (induction s arbitrary: prev k) (simp_all split: list.splits)

lemma test_cong: "(\<And>p. ends r p = ends r' p) \<Longrightarrow> test r s = test r' s"
  using firstMatchFrom_cong[of r r' None s 0] by (simp add: test_def firstMatch_def)

lemma test_first_atom_nested: "test (Seq (Seq (Atom P) a) b) s \<Longrightarrow> \<exists>c \<in> set s. P c"
proof -
  assume t: "test (Seq (Seq (Atom P) a) b) s"
  have "test (Seq (Seq (Atom P) a) b) s = test (Seq (Atom P) (Seq a b)) s"
    by (rule test_cong) (rule ends_Seq_assoc)
  then show ?thesis using t test_first_atom by blast
qed

lemma eol_after_run:
  "concat (map (ends (Seq Eol Eps)) (runs P prev s)) \<noteq> [] \<Longrightarrow> \<forall>c \<in> set s. P c"
  by (induction s arbitrary: prev) (auto split: if_splits)

subsection \<open>UI lines and the waiting patterns\<close>

lemma test_reBorderRow:
  assumes "test reBorderRow l"
  shows "\<forall>c \<in> set l. isBorderGlyph c"
proof -
  let ?G = "Atom isBorderGlyph"
  have u: "reBorderRow = Seq Bol (Seq (Plus ?G) (Seq Eol Eps))"
    by (simp add: reBorderRow_def Seqs_def)
  have "firstMatch reBorderRow l
      = (case ends reBorderRow (None, l) of [] \<Rightarrow> None | q # qs \<Rightarrow> Some (0, snd q))"
    unfolding u by (rule firstMatch_bol)
  then have ne: "ends reBorderRow (None, l) \<noteq> []"
    using assms by (auto simp: test_def split: list.splits option.splits)
  have "ends reBorderRow (None, l) = ends (Seq (Plus ?G) (Seq Eol Eps)) (None, l)"
    unfolding u by simp
  also have "\<dots> = ends (Seq ?G (Seq (Star ?G) (Seq Eol Eps))) (None, l)"
    unfolding Plus_def by (rule ends_Seq_assoc)
  also have "\<dots> = (case l of [] \<Rightarrow> []
       | c # cs \<Rightarrow> if isBorderGlyph c
                  then concat (map (ends (Seq Eol Eps)) (runs isBorderGlyph (Some c) cs)) else [])"
    unfolding ends_Seq_Atom by (simp add: ends_Star_Atom del: ends.simps(5) split: list.splits)
  finally have e: "ends reBorderRow (None, l) = (case l of [] \<Rightarrow> []
       | c # cs \<Rightarrow> if isBorderGlyph c
                  then concat (map (ends (Seq Eol Eps)) (runs isBorderGlyph (Some c) cs)) else [])" .
  show ?thesis
  proof (cases l)
    case Nil
    then show ?thesis by simp
  next
    case (Cons c cs)
    then have "isBorderGlyph c" "concat (map (ends (Seq Eol Eps)) (runs isBorderGlyph (Some c) cs)) \<noteq> []"
      using ne e by (auto split: if_splits)
    then show ?thesis using Cons eol_after_run[of isBorderGlyph "Some c" cs] by simp
  qed
qed

lemma border_glyph_no_letter:
  "isBorderGlyph c \<Longrightarrow> 65 \<le> k \<Longrightarrow> k \<le> 122 \<Longrightarrow> upper c \<noteq> upper k"
  by (auto simp: isBorderGlyph_def isSpace_def upper_def split: if_splits)

lemma stri_first:
  "stri (a # w) = Seq (chri (of_char a)) (Seqs (map chri (ascii w)))"
  by (simp add: stri_def Seqs_def ascii_def)

lemma Seqs_first: "Seqs (r # rs) = Seq r (Seqs rs)"
  by (simp add: Seqs_def)

lemma border_row_not_waiting:
  assumes "\<forall>c \<in> set l. isBorderGlyph c"
  shows "\<not> list_ex (\<lambda>pattern. test pattern l) meaningfulWaitingPatterns"
proof -
  have no: "\<And>k. 65 \<le> k \<Longrightarrow> k \<le> 122 \<Longrightarrow> \<not> (\<exists>c \<in> set l. upper c = upper k)"
    using assms border_glyph_no_letter by blast
  have a1: "\<And>k r. 65 \<le> k \<Longrightarrow> k \<le> 122 \<Longrightarrow> \<not> test (Seq (chri k) r) l"
    unfolding chri_def using no test_first_atom by blast
  have a2: "\<And>k r r'. 65 \<le> k \<Longrightarrow> k \<le> 122 \<Longrightarrow> \<not> test (Seq (Seq (chri k) r) r') l"
    unfolding chri_def using no test_first_atom_nested by blast
  show ?thesis
    unfolding meaningfulWaitingPatterns_def
    by (simp add: Seqs_first stri_first a1 a2 del: ends.simps)
qed

lemma context_left_is_completion:
  assumes "includes_js l txtContextLeft"
  shows "detectTaskCompletion l bufferText"
proof -
  have "test (stri ''context left'') l"
    using assms includes_test_stri by (simp add: txtContextLeft_def)
  moreover have "stri ''context left'' \<in> set completionPatterns"
    by (simp add: completionPatterns_def)
  ultimately have "list_ex (\<lambda>pattern. test pattern l) completionPatterns"
    unfolding list_ex_iff by blast
  then show ?thesis by (simp add: detectTaskCompletion_def)
qed

lemma ui_line_never_waiting:
  assumes "isUiLine l" and "shouldTriggerWaitingNotification l"
  shows "detectTaskCompletion l bufferText"
proof -
  have ns: "\<not> includes_js l txtShortcuts" and w: "list_ex (\<lambda>pattern. test pattern l) meaningfulWaitingPatterns"
    using assms(2) by (simp_all add: shouldTriggerWaitingNotification_def)
  have "\<not> test reBorderRow l" using w test_reBorderRow border_row_not_waiting by blast
  then have "includes_js l txtContextLeft" using assms(1) ns by (simp add: isUiLine_def)
  then show ?thesis by (rule context_left_is_completion)
qed

lemma analyze_ui_line_no_waiting:
  assumes "isUiLine l"
  shows "\<not> list_ex isWaiting (snd (analyzeNewContent [l] cur recapture m))"
proof -
  let ?p = "if cur \<noteq> [] then cur else lastPaneContent m"
  obtain r1 m1 where d1: "detectTelegramDoneCompletion ?p m = (r1, m1)" by fastforce
  obtain r2 m2 where d2: "detectCompletionFromPane ?p m1 = (r2, m2)" by fastforce
  have nw: "shouldTriggerWaitingNotification l \<Longrightarrow>
      detectTaskCompletion l (joinLines (sliceLast 20 (outputBuffer m)))"
    using ui_line_never_waiting[OF assms] by blast
  show ?thesis
  proof (cases r1)
    case (Some conv)
    then show ?thesis using d1
      by (simp add: analyzeNewContent_def Let_def handleTaskCompletion_def)
  next
    case None
    show ?thesis
    proof (cases r2)
      case True
      then show ?thesis using d1 d2 None
        by (simp add: analyzeNewContent_def Let_def handleTaskCompletion_def)
    next
      case False
      then show ?thesis using d1 d2 None nw
        by (auto simp: analyzeNewContent_def Let_def handleTaskCompletion_def)
    qed
  qed
qed

subsection \<open>A cycle whose only new line is a UI line\<close>

lemma filter_upt_single:
  assumes "a \<le> k" "k < b" "\<forall>i. a \<le> i \<and> i < b \<longrightarrow> (P i \<longleftrightarrow> i = k)"
  shows "filter P [a..<b] = [k]"
proof -
  have split: "[a..<b] = [a..<k] @ k # [Suc k..<b]"
    using assms(1,2) by (metis le_add_diff_inverse less_imp_le_nat upt_add_eq_append upt_conv_Cons)
  have "filter P [a..<k] = []" using assms by (auto simp: filter_empty_conv)
  moreover have "filter P [Suc k..<b] = []" using assms by (auto simp: filter_empty_conv)
  moreover have "P k" using assms by blast
  ultimately show ?thesis unfolding split by simp
qed

lemma getNewLines_single:
  assumes n: "length (splitLines cur) = length (splitLines prev)"
    and k: "k < length (splitLines cur)" "length (splitLines cur) - 5 \<le> k"
    and same: "\<forall>i < length (splitLines cur). i \<noteq> k \<longrightarrow> splitLines cur ! i = splitLines prev ! i"
    and diff: "splitLines cur ! k \<noteq> splitLines prev ! k"
    and nb: "nonBlank (splitLines cur ! k)"
  shows "getNewLines prev cur = [splitLines cur ! k]"
proof -
  let ?new = "splitLines cur" and ?old = "splitLines prev"
  have "filter (\<lambda>i. i < length ?old \<and> ?new ! i \<noteq> ?old ! i) [length ?new - 5 ..< length ?new] = [k]"
    by (rule filter_upt_single) (use n k same diff in auto)
  then show ?thesis using n nb by (simp add: getNewLines_def Let_def)
qed

lemma footer_change_events:
  assumes n: "length (splitLines cur) = length (splitLines (lastPaneContent m))"
    and k: "k < length (splitLines cur)" "length (splitLines cur) - 5 \<le> k"
    and same: "\<forall>i < length (splitLines cur). i \<noteq> k \<longrightarrow>
                 splitLines cur ! i = splitLines (lastPaneContent m) ! i"
    and diff: "splitLines cur ! k \<noteq> splitLines (lastPaneContent m) ! k"
    and ui: "isUiLine (splitLines cur ! k)" and nb: "nonBlank (splitLines cur ! k)"
  shows "\<not> list_ex isWaiting (snd (checkForChanges (Some cur) recapture m))"
proof -
  let ?l = "splitLines cur ! k"
  have ch: "cur \<noteq> lastPaneContent m" using diff by auto
  have g: "getNewLines (lastPaneContent m) cur = [?l]"
    using getNewLines_single[OF n k same diff nb] .
  define buffer where "buffer = (if length (outputBuffer m @ [?l]) > maxBufferSize
       then sliceLast maxBufferSize (outputBuffer m @ [?l]) else outputBuffer m @ [?l])"
  obtain m1 ev1 where a: "analyzeNewContent [?l] cur recapture (m\<lparr>outputBuffer := buffer\<rparr>) = (m1, ev1)"
    by fastforce
  have w1: "\<not> list_ex isWaiting ev1"
    using analyze_ui_line_no_waiting[OF ui, of cur recapture "m\<lparr>outputBuffer := buffer\<rparr>"] a by simp
  obtain r m' where d: "detectTelegramDoneCompletion cur m1 = (r, m')" by fastforce
  have ne: "cur \<noteq> []" using g getNewLines_empty[of "lastPaneContent m"] by auto
  have "snd (checkForChanges (Some cur) recapture m)
      = ev1 @ (case r of Some conv \<Rightarrow> [handleTaskCompletion [] (Some conv) recapture m'] | None \<Rightarrow> [])"
    unfolding checkForChanges_def Let_def captureCurrentContent_def option.case g
    using ch ne a d by (simp add: buffer_def split: option.splits split del: if_split)
  then show ?thesis using w1 by (auto simp: handleTaskCompletion_def split: option.splits)
qed

subsection \<open>A UI line is not a bare prompt\<close>

text \<open>
  A match consumes characters of its character classes only. So \<open>_stripAnsi\<close> keeps
  every character that cannot be part of a colour code, and a prompt-only line, once
  stripped, is made of white space, bars and the marker, and holds the marker.
\<close>

lemma starIter_consumed:
  assumes f: "\<And>p q. q \<in> set (f p) \<Longrightarrow> \<exists>u. snd p = u @ snd q \<and> (\<forall>c \<in> set u. Q c)"
  shows "q \<in> set (starIter f n p) \<Longrightarrow> \<exists>u. snd p = u @ snd q \<and> (\<forall>c \<in> set u. Q c)"
proof (induction n arbitrary: p q)
  case 0
  then show ?case by simp
next
  case (Suc n)
  from Suc.prems consider "q = p" | m where "m \<in> set (f p)" "q \<in> set (starIter f n m)"
    by auto
  then show ?case
  proof cases
    case 1
    then show ?thesis by simp
  next
    case 2
    obtain u1 where u1: "snd p = u1 @ snd m" "\<forall>c \<in> set u1. Q c" using f[OF 2(1)] by blast
    obtain u2 where u2: "snd m = u2 @ snd q" "\<forall>c \<in> set u2. Q c" using Suc.IH[OF 2(2)] by blast
    have "snd p = (u1 @ u2) @ snd q \<and> (\<forall>c \<in> set (u1 @ u2). Q c)" using u1 u2 by auto
    then show ?thesis by blast
  qed
qed

lemma ends_consumed:
  "atomsIn Q r \<Longrightarrow> q \<in> set (ends r p) \<Longrightarrow> \<exists>u. snd p = u @ snd q \<and> (\<forall>c \<in> set u. Q c)"
proof (induction r arbitrary: p q)
  case (Atom P)
  show ?case
  proof (cases "snd p")
    case Nil
    then show ?thesis using Atom.prems(2) by simp
  next
    case (Cons c cs)
    then have "P c" "q = (Some c, cs)" using Atom.prems(2) by (auto split: if_splits)
    then have "snd p = [c] @ snd q \<and> (\<forall>x \<in> set [c]. Q x)" using Atom.prems(1) Cons by simp
    then show ?thesis by blast
  qed
next
  case Eps
  then show ?case by simp
next
  case (Seq r1 r2)
  then obtain m where m: "m \<in> set (ends r1 p)" "q \<in> set (ends r2 m)" by auto
  obtain u1 where u1: "snd p = u1 @ snd m" "\<forall>c \<in> set u1. Q c"
    using Seq.IH(1)[OF _ m(1)] Seq.prems(1) by auto
  obtain u2 where u2: "snd m = u2 @ snd q" "\<forall>c \<in> set u2. Q c"
    using Seq.IH(2)[OF _ m(2)] Seq.prems(1) by auto
  have "snd p = (u1 @ u2) @ snd q \<and> (\<forall>c \<in> set (u1 @ u2). Q c)" using u1 u2 by auto
  then show ?case by blast
next
  case (Alt r1 r2)
  from Alt.prems(2) consider "q \<in> set (ends r1 p)" | "q \<in> set (ends r2 p)" by auto
  then show ?case
  proof cases
    case 1
    then show ?thesis using Alt.IH(1)[of q p] Alt.prems(1) by simp
  next
    case 2
    then show ?thesis using Alt.IH(2)[of q p] Alt.prems(1) by simp
  qed
next
  case (Star r)
  have f: "\<And>p q. q \<in> set (ends r p) \<Longrightarrow> \<exists>u. snd p = u @ snd q \<and> (\<forall>c \<in> set u. Q c)"
    using Star.IH Star.prems(1) by simp
  show ?case using starIter_consumed[of "ends r" Q, OF f] Star.prems(2) by simp
next
  case Bol
  then show ?case by (auto split: option.splits)
next
  case BolM
  then show ?case by (auto split: option.splits if_splits)
next
  case Eol
  then show ?case by (auto split: list.splits)
qed

lemma ends_Seq_mem:
  "q \<in> set (ends (Seq a b) p) \<Longrightarrow> \<exists>m \<in> set (ends a p). q \<in> set (ends b m)"
  by auto

lemma atomsIn_reAnsi: "atomsIn isAnsiChar reAnsi"
  by (simp add: reAnsi_def Seqs_def chr_def isAnsiChar_def)

lemma removeAll_reAnsi_keeps:
  "c \<in> set s \<Longrightarrow> \<not> isAnsiChar c \<Longrightarrow> c \<in> set (removeAll reAnsi prev s)"
proof (induction "length s" arbitrary: s prev rule: less_induct)
  case less
  have step: "\<And>x xs. s = x # xs \<Longrightarrow> c \<in> set (x # removeAll reAnsi (Some x) xs)"
  proof -
    fix x xs assume s: "s = x # xs"
    show "c \<in> set (x # removeAll reAnsi (Some x) xs)"
    proof (cases "c = x")
      case True
      then show ?thesis by simp
    next
      case False
      then have "c \<in> set xs" using less.prems(1) s by simp
      then have "c \<in> set (removeAll reAnsi (Some x) xs)"
        using less.hyps[of xs "Some x"] less.prems(2) s by simp
      then show ?thesis by simp
    qed
  qed
  obtain x xs where s: "s = x # xs" using less.prems(1) by (cases s) auto
  show ?case
  proof (cases "ends reAnsi (prev, s)")
    case Nil
    then have "removeAll reAnsi prev s = x # removeAll reAnsi (Some x) xs"
      unfolding s by (simp add: removeAll.simps[of reAnsi prev "x # xs"])
    then show ?thesis using step[OF s] by simp
  next
    case (Cons q qs)
    show ?thesis
    proof (cases "length (snd q) < length s")
      case True
      have "q \<in> set (ends reAnsi (prev, s))" using Cons by simp
      then obtain u where u: "s = u @ snd q" "\<forall>c \<in> set u. isAnsiChar c"
        using ends_consumed[OF atomsIn_reAnsi, of q "(prev, s)"] by auto
      then have "c \<in> set (snd q)" using less.prems by auto
      then have "c \<in> set (removeAll reAnsi (fst q) (snd q))"
        using less.hyps[OF True] less.prems(2) by simp
      then show ?thesis using Cons True by (simp add: removeAll.simps[of reAnsi prev s])
    next
      case False
      then have "removeAll reAnsi prev s = x # removeAll reAnsi (Some x) xs"
        using Cons unfolding s by (simp add: removeAll.simps[of reAnsi prev "x # xs"])
      then show ?thesis using step[OF s] by simp
    qed
  qed
qed

lemma rePromptOnlyLine_unfold:
  "rePromptOnlyLine
     = Seq Bol (Seq (Star sp) (Seq (Opt (Seq bar (Seq (Star sp) Eps)))
         (Seq marker (Seq (Star sp) (Seq (Opt (Seq bar (Seq (Star sp) Eps))) (Seq Eol Eps))))))"
  by (simp add: rePromptOnlyLine_def Seqs_def)

lemma atomsIn_rePromptOnlyLine: "atomsIn isPromptGlyph rePromptOnlyLine"
  by (simp add: rePromptOnlyLine_unfold sp_def bar_def marker_def chr_def Opt_def isPromptGlyph_def)

lemma atomsIn_True: "atomsIn (\<lambda>c. True) r"
  by (induction r) simp_all

lemma ends_suffix: "q \<in> set (ends r p) \<Longrightarrow> \<exists>u. snd p = u @ snd q"
  using ends_consumed[OF atomsIn_True, of q r p] by blast

lemma test_rePromptOnlyLine:
  assumes "test rePromptOnlyLine t"
  shows "(\<forall>c \<in> set t. isPromptGlyph c) \<and> 0x203A \<in> set t"
proof -
  let ?O = "Opt (Seq bar (Seq (Star sp) Eps))"
  let ?R4 = "Seq (Star sp) (Seq ?O (Seq Eol Eps))"
  have "firstMatch rePromptOnlyLine t
      = (case ends rePromptOnlyLine (None, t) of [] \<Rightarrow> None | q # qs \<Rightarrow> Some (0, snd q))"
    unfolding rePromptOnlyLine_unfold by (rule firstMatch_bol)
  then have "ends rePromptOnlyLine (None, t) \<noteq> []"
    using assms by (auto simp: test_def split: list.splits option.splits)
  then obtain q where q: "q \<in> set (ends rePromptOnlyLine (None, t))"
    by (cases "ends rePromptOnlyLine (None, t)") auto
  obtain u where u: "t = u @ snd q" "\<forall>c \<in> set u. isPromptGlyph c"
    using ends_consumed[OF atomsIn_rePromptOnlyLine q] by auto
  obtain m1 where m1: "m1 \<in> set (ends Bol (None, t))"
      "q \<in> set (ends (Seq (Star sp) (Seq ?O (Seq marker ?R4))) m1)"
    using q unfolding rePromptOnlyLine_unfold by (blast dest: ends_Seq_mem)
  obtain m2 where m2: "m2 \<in> set (ends (Star sp) m1)" "q \<in> set (ends (Seq ?O (Seq marker ?R4)) m2)"
    using m1(2) by (blast dest: ends_Seq_mem)
  obtain m3 where m3: "m3 \<in> set (ends ?O m2)" "q \<in> set (ends (Seq marker ?R4) m3)"
    using m2(2) by (blast dest: ends_Seq_mem)
  obtain m4 where m4: "m4 \<in> set (ends marker m3)" "q \<in> set (ends ?R4 m4)"
    using m3(2) by (blast dest: ends_Seq_mem)
  obtain m5 where m5: "m5 \<in> set (ends (Star sp) m4)" "q \<in> set (ends (Seq ?O (Seq Eol Eps)) m5)"
    using m4(2) by (blast dest: ends_Seq_mem)
  obtain m6 where m6: "m6 \<in> set (ends ?O m5)" "q \<in> set (ends (Seq Eol Eps) m6)"
    using m5(2) by (blast dest: ends_Seq_mem)
  have qe: "snd q = []" using m6(2) by (auto split: list.splits)
  obtain u1 where u1: "t = u1 @ snd m1" using ends_suffix[OF m1(1)] by auto
  obtain u2 where u2: "snd m1 = u2 @ snd m2" using ends_suffix[OF m2(1)] by auto
  obtain u3 where u3: "snd m2 = u3 @ snd m3" using ends_suffix[OF m3(1)] by auto
  have "0x203A \<in> set (snd m3)"
    using m4(1) by (cases "snd m3") (auto simp: marker_def chr_def split: if_splits)
  then have "0x203A \<in> set t" using u1 u2 u3 by simp
  then show ?thesis using u qe by simp
qed

lemma ui_line_not_prompt_only:
  assumes "isUiLine l"
  shows "\<not> isPromptOnlyLine l"
proof
  assume "isPromptOnlyLine l"
  then have p: "\<forall>c \<in> set (stripAnsi l). isPromptGlyph c" "0x203A \<in> set (stripAnsi l)"
    using test_rePromptOnlyLine[of "stripAnsi l"] by (simp_all add: isPromptOnlyLine_def)
  have keep: "\<And>c. c \<in> set l \<Longrightarrow> \<not> isAnsiChar c \<Longrightarrow> \<not> isPromptGlyph c \<Longrightarrow> False"
    using p(1) removeAll_reAnsi_keeps[of _ l None] by (auto simp: stripAnsi_def)
  consider "includes_js l txtShortcuts" | "includes_js l txtContextLeft" | "test reBorderRow l"
    using assms by (auto simp: isUiLine_def)
  then show False
  proof cases
    case 1
    then obtain pre post where "l = pre @ txtShortcuts @ post" using includes_js_iff by blast
    then have "63 \<in> set l" by (simp add: txtShortcuts_def ascii_def)
    then show False using keep[of 63] by (simp add: isAnsiChar_def isPromptGlyph_def isSpace_def)
  next
    case 2
    then obtain pre post where "l = pre @ txtContextLeft @ post" using includes_js_iff by blast
    then have "99 \<in> set l" by (simp add: txtContextLeft_def ascii_def)
    then show False using keep[of 99] by (simp add: isAnsiChar_def isPromptGlyph_def isSpace_def)
  next
    case 3
    then have b: "\<forall>c \<in> set l. isBorderGlyph c" by (rule test_reBorderRow)
    then have "27 \<notin> set l" by (auto simp: isBorderGlyph_def isSpace_def)
    then have "stripAnsi l = l" by (rule stripAnsi_id)
    then have "isBorderGlyph 0x203A" using p(2) b by auto
    then show False by (simp add: isBorderGlyph_def isSpace_def)
  qed
qed


subsection \<open>A cycle that finds no new line\<close>

lemma isPromptOnlyLine_Nil: "\<not> isPromptOnlyLine []"
  using test_rePromptOnlyLine[of "[]"] stripAnsi_id[of "[]"] by (auto simp: isPromptOnlyLine_def)

lemma getNewLines_none:
  assumes "splitLines prev = pre @ [old] @ post" and "splitLines cur = pre @ [footer] @ post"
    and "5 \<le> length post"
  shows "getNewLines prev cur = []"
proof -
  let ?new = "splitLines cur" and ?old = "splitLines prev"
  have n: "length ?new = length ?old" using assms(1,2) by simp
  have "\<forall>i \<in> set [length ?new - 5 ..< length ?new]. \<not> (i < length ?old \<and> ?new ! i \<noteq> ?old ! i)"
    unfolding assms(1,2) using assms(3) by (auto simp: nth_append nth_Cons')
  then have "filter (\<lambda>i. i < length ?old \<and> ?new ! i \<noteq> ?old ! i) [length ?new - 5 ..< length ?new] = []"
    unfolding filter_empty_conv by blast
  then show ?thesis using n by (simp add: getNewLines_def Let_def)
qed

lemma last_filter_drop:
  assumes "P f" and "filter P (drop d (pre @ f # post)) \<noteq> []"
  shows "last (filter P (drop d (pre @ f # post))) \<in> set (f # post)"
proof (cases "d \<le> length pre")
  case True
  then have "filter P (drop d (pre @ f # post)) = filter P (drop d pre) @ f # filter P post"
    using assms(1) by simp
  then have "last (filter P (drop d (pre @ f # post))) = last (f # filter P post)" by simp
  moreover have "last (f # filter P post) \<in> set (f # filter P post)" by (rule last_in_set) simp
  ultimately show ?thesis by auto
next
  case False
  then have "drop d (pre @ f # post) = drop (d - length pre) (f # post)" by simp
  moreover have "last (filter P (drop d (pre @ f # post))) \<in> set (filter P (drop d (pre @ f # post)))"
    using assms(2) by (rule last_in_set)
  ultimately have "last (filter P (drop d (pre @ f # post))) \<in> set (drop (d - length pre) (f # post))"
    by auto
  then show ?thesis using set_drop_subset[of "d - length pre" "f # post"] by blast
qed

lemma footer_change_far_events:
  assumes prev: "splitLines (lastPaneContent m) = pre @ [old] @ post"
    and cur: "splitLines cur = pre @ [footer] @ post"
    and diff: "footer \<noteq> old" and far: "5 \<le> length post"
    and ui: "isUiLine footer" and nb: "nonBlank footer"
    and below: "list_all (\<lambda>l. isUiLine l \<or> \<not> nonBlank l) post"
  shows "\<not> list_ex isWaiting (snd (checkForChanges (Some cur) recapture m))"
proof -
  let ?tl = "filter nonBlank (sliceLast 20 (splitLines cur))"
  have ch: "cur \<noteq> lastPaneContent m" using prev cur diff by auto
  have g: "getNewLines (lastPaneContent m) cur = []"
    using getNewLines_none[OF prev cur far] .
  have np: "\<not> isPromptOnlyLine (if ?tl = [] then [] else last ?tl)"
  proof (cases "?tl = []")
    case True
    then show ?thesis by (simp add: isPromptOnlyLine_Nil)
  next
    case False
    have tl: "?tl = filter nonBlank (drop (length (splitLines cur) - 20) (pre @ footer # post))"
      unfolding sliceLast_def cur by simp
    have "last ?tl \<in> set (footer # post)"
      unfolding tl
      using last_filter_drop[of nonBlank footer "length (splitLines cur) - 20" pre post] nb False tl
      by simp
    moreover have "last ?tl \<in> set ?tl" using False by (rule last_in_set)
    then have "nonBlank (last ?tl)" by simp
    ultimately have "isUiLine (last ?tl)"
      using ui below by (auto simp: list_all_iff)
    then show ?thesis using False ui_line_not_prompt_only by simp
  qed
  obtain r m' where d: "detectTelegramDoneCompletion cur m = (r, m')" by fastforce
  have "length (splitLines cur) \<noteq> 1" unfolding cur using far by auto
  then have ne: "cur \<noteq> []" by auto
  have "snd (checkForChanges (Some cur) recapture m)
      = (case r of Some conv \<Rightarrow> [handleTaskCompletion [] (Some conv) recapture m'] | None \<Rightarrow> [])"
    unfolding checkForChanges_def Let_def captureCurrentContent_def option.case g
    using ch np d ne by (simp split: option.splits split del: if_split)
  then show ?thesis by (auto simp: handleTaskCompletion_def split: option.splits)
qed

text \<open>
  Claim C3. The pane has as many lines as at the poll before and differs in one line
  only, the footer: that line is now a non-blank UI line (it includes "? for shortcuts"
  or "context left", or is a row of border glyphs), and every line below it is blank
  or a UI line too, so that it belongs to the block of chrome that ends the pane. Then
  the poll emits no waiting event, wherever in the pane the footer is, whatever the
  state of the monitor and whatever the handler's capture gives. When the footer is
  among the last five lines it is the only new line, and no UI line raises a waiting
  event; otherwise no new line is found, and the tail is not analysed again, because
  its last non-blank line is a UI line and not a bare prompt.
\<close>

theorem footer_change_no_waiting:
  assumes "splitLines (lastPaneContent m) = pre @ [old] @ post"
    and "splitLines cur = pre @ [footer] @ post"
    and "footer \<noteq> old"
    and "isUiLine footer" and "nonBlank footer"
    and "list_all (\<lambda>l. isUiLine l \<or> \<not> nonBlank l) post"
  shows "\<not> list_ex isWaiting (snd (checkForChanges (Some cur) recapture m))"
proof (cases "length post < 5")
  case True
  show ?thesis
  proof (rule footer_change_events[where k = "length pre"])
    show "length (splitLines cur) = length (splitLines (lastPaneContent m))"
      using assms(1,2) by simp
    show "length pre < length (splitLines cur)" using assms(2) by simp
    show "length (splitLines cur) - 5 \<le> length pre" using assms(2) True by simp
    show "\<forall>i < length (splitLines cur). i \<noteq> length pre \<longrightarrow>
            splitLines cur ! i = splitLines (lastPaneContent m) ! i"
      unfolding assms(1,2) by (auto simp: nth_append nth_Cons')
    show "splitLines cur ! length pre \<noteq> splitLines (lastPaneContent m) ! length pre"
      unfolding assms(1,2) using assms(3) by simp
    show "isUiLine (splitLines cur ! length pre)" unfolding assms(2) using assms(4) by simp
    show "nonBlank (splitLines cur ! length pre)" unfolding assms(2) using assms(5) by simp
  qed
next
  case False
  then have "5 \<le> length post" by simp
  then show ?thesis using footer_change_far_events[OF assms(1,2,3) _ assms(4,5,6)] by blast
qed

lemma paneDone_lines:
  "splitLines (lastPaneContent (fst (poll paneDone98 mRunning)))
     = splitLines txtConvo1 @ [[0x203A]] @ [ascii ''98% context left''] @ []"
  "splitLines paneDone97 = splitLines txtConvo1 @ [[0x203A]] @ [ascii ''97% context left''] @ []"
  "ascii ''97% context left'' \<noteq> ascii ''98% context left''"
  "isUiLine (ascii ''97% context left'')" "nonBlank (ascii ''97% context left'')"
  by code_simp+

lemma paneFooter_lines:
  "splitLines (lastPaneContent (fst (poll (paneFooter ''98'') mRunning)))
     = (splitLines txtConvo1 @ [[0x203A]]) @ [ascii ''98% context left''] @ replicate 8 []"
  "splitLines (paneFooter ''97'')
     = (splitLines txtConvo1 @ [[0x203A]]) @ [ascii ''97% context left''] @ replicate 8 []"
  "list_all (\<lambda>l. isUiLine l \<or> \<not> nonBlank l) (replicate 8 [])"
  by code_simp+

theorem footer_change_no_waiting_witness:
  "\<not> list_ex isWaiting (snd (checkForChanges (Some paneDone97) (Some paneDone97)
        (fst (poll paneDone98 mRunning))))
   \<and> \<not> list_ex isWaiting (snd (checkForChanges (Some (paneFooter ''97'')) (Some (paneFooter ''97''))
        (fst (poll (paneFooter ''98'') mRunning))))"
  using footer_change_no_waiting [of "fst (poll paneDone98 mRunning)"
      "splitLines txtConvo1 @ [[0x203A]]" "ascii ''98% context left''" "[]" paneDone97
      "ascii ''97% context left''" "Some paneDone97"]
    footer_change_no_waiting [of "fst (poll (paneFooter ''98'') mRunning)"
      "splitLines txtConvo1 @ [[0x203A]]" "ascii ''98% context left''" "replicate 8 []"
      "paneFooter ''97''" "ascii ''97% context left''" "Some (paneFooter ''97'')"]
    paneDone_lines paneFooter_lines
  by simp

text \<open>
  The hypothesis on the lines below the changed line is needed. Here the line that
  changes is a status line on top of the pane, above a question and the bare prompt,
  and not among the last five lines: no new line is found, the tail ends with the bare
  prompt and is analysed again, and the question raises a waiting event at both polls.
\<close>

lemma status_line_above_prompt_waiting_again:
  "tl (splitLines (paneStatus ''97'')) = tl (splitLines (paneStatus ''98''))
   \<and> isUiLine (hd (splitLines (paneStatus ''98'')))
   \<and> isUiLine (hd (splitLines (paneStatus ''97'')))
   \<and> map isWaiting (snd (poll (paneStatus ''98'') mRunning)) = [True]
   \<and> map isWaiting (snd (poll (paneStatus ''97'') (fst (poll (paneStatus ''98'') mRunning)))) = [True]"
  by code_simp

subsection \<open>The dedup keys\<close>

text \<open>
  What the detectors do: each suppresses the key it recorded last. When
  \<open>_detectCompletionFromPane\<close> has reported a completion, a pass over any pane with
  the same question and the same response next reports none and leaves the state as
  it is; when \<open>_detectTelegramDoneCompletion\<close> has reported a completion for a pane, a
  pass over the same pane next reports none and leaves the state as it is.
\<close>

lemma detectors_suppress_last_key:
  "(detectCompletionFromPane p m = (True, m') \<and> p' \<noteq> []
      \<and> userQuestion (extractRecentConversation p' (outputBuffer m'))
          = userQuestion (extractRecentConversation p (outputBuffer m))
      \<and> claudeResponse (extractRecentConversation p' (outputBuffer m'))
          = claudeResponse (extractRecentConversation p (outputBuffer m))
    \<longrightarrow> detectCompletionFromPane p' m' = (False, m'))
   \<and> (detectTelegramDoneCompletion q s = (Some conv, s')
    \<longrightarrow> detectTelegramDoneCompletion q s' = (None, s'))"
proof (intro conjI impI)
  assume a: "detectCompletionFromPane p m = (True, m') \<and> p' \<noteq> []
      \<and> userQuestion (extractRecentConversation p' (outputBuffer m'))
          = userQuestion (extractRecentConversation p (outputBuffer m))
      \<and> claudeResponse (extractRecentConversation p' (outputBuffer m'))
          = claudeResponse (extractRecentConversation p (outputBuffer m))"
  then show "detectCompletionFromPane p' m' = (False, m')"
    by (auto simp: detectCompletionFromPane_def Let_def split: if_splits)
next
  assume b: "detectTelegramDoneCompletion q s = (Some conv, s')"
  then show "detectTelegramDoneCompletion q s' = (None, s')"
    by (auto simp: detectTelegramDoneCompletion_def Let_def split: if_splits option.splits)
qed

text \<open>
  A monitor keeps the last key of each detector and no earlier one. Three polls show
  one, two and three exchanges, the third exchange equal to the first: the key of the
  first poll is replaced at the second, and recorded and reported again at the third.
\<close>

lemma old_fingerprint_reported_again:
  "map isCompleted (snd (poll paneT1 mRunning)) = [True]
   \<and> map isCompleted (snd (poll paneT2 (fst (poll paneT1 mRunning)))) = [True]
   \<and> map isCompleted (snd (poll paneT3 (fst (poll paneT2 (fst (poll paneT1 mRunning)))))) = [True]
   \<and> lastCompletionKey (fst (poll paneT2 (fst (poll paneT1 mRunning))))
       \<noteq> lastCompletionKey (fst (poll paneT1 mRunning))
   \<and> lastCompletionKey (fst (poll paneT3 (fst (poll paneT2 (fst (poll paneT1 mRunning))))))
       = lastCompletionKey (fst (poll paneT1 mRunning))"
  by code_simp

text \<open>
  Claim C1. The code does not do what the claim says. The pane shows a finished
  exchange, and between two polls only the context counter below the prompt is
  repainted (98, then 97 percent): question and response are the same at both polls.
  The first poll records the key and emits a completion event. At the second poll
  \<open>_detectCompletionFromPane\<close> finds the key it recorded and answers "no", the key
  stays as it is, and \<open>_analyzeNewContent\<close> goes on to \<open>_detectResponseCompletion\<close> and
  \<open>_detectTaskCompletion\<close>, which know no key: a second completion event is emitted,
  with the same question and the same response. With a pane where the task wrote
  "Telegram done" the same repaint gives three events at three polls, one from each
  of \<open>_detectTelegramDoneCompletion\<close>, \<open>_detectCompletionFromPane\<close> and the patterns.
\<close>

theorem repaint_emits_completion_again:
  "map isCompleted (snd (poll paneDone98 mRunning)) = [True]
   \<and> map isCompleted (snd (poll paneDone97 (fst (poll paneDone98 mRunning)))) = [True]
   \<and> map (userQuestion \<circ> conversationOf) (snd (poll paneDone98 mRunning)) = [ascii ''summarize repo'']
   \<and> map (userQuestion \<circ> conversationOf) (snd (poll paneDone97 (fst (poll paneDone98 mRunning))))
       = [ascii ''summarize repo'']
   \<and> map (claudeResponse \<circ> conversationOf) (snd (poll paneDone97 (fst (poll paneDone98 mRunning))))
       = map (claudeResponse \<circ> conversationOf) (snd (poll paneDone98 mRunning))
   \<and> lastCompletionKey (fst (poll paneDone98 mRunning)) \<noteq> []
   \<and> lastCompletionKey (fst (poll paneDone97 (fst (poll paneDone98 mRunning))))
       = lastCompletionKey (fst (poll paneDone98 mRunning))
   \<and> fst (detectCompletionFromPane paneDone97 (fst (poll paneDone98 mRunning))) = False
   \<and> map isCompleted (snd (poll (paneMarkerAt ''98'') mRunning)) = [True]
   \<and> map isCompleted (snd (poll (paneMarkerAt ''97'') (fst (poll (paneMarkerAt ''98'') mRunning)))) = [True]
   \<and> map isCompleted (snd (poll (paneMarkerAt ''96'')
        (fst (poll (paneMarkerAt ''97'') (fst (poll (paneMarkerAt ''98'') mRunning)))))) = [True]"
  by code_simp

end
